theory Spec2Isabelle
  imports Main "HOL-Library.AList"
begin

section \<open>Route patterns and their regular expressions\<close>

text \<open>
  The resolver (\<open>src/utils/resolveMetadata.ts\<close>) turns every key of \<open>config.routes\<close>
  into the source text of a regular expression:
  \<^verbatim>\<open>const pattern = "^" + route.replace(/:[^/]+/g, "([^/]+)") + "$";\<close>
  Strings are lists of characters; the characters are the 8-bit characters of HOL, so
  the model covers the strings whose code units are below 256.
  \<open>String.prototype.replace\<close> with the global expression
  \<open>/:[^/]+/g\<close> scans from the left: at a colon that is followed by at least one character
  other than a slash it consumes the colon and the longest run of non-slash characters after
  it, emits the replacement text and resumes after the run; any other character is copied.
\<close>

abbreviation non_slash :: "char \<Rightarrow> bool" where
  "non_slash x \<equiv> x \<noteq> CHR ''/''"

function replace_colon :: "string \<Rightarrow> string" where
  "replace_colon [] = []"
| "replace_colon (c # cs) =
     (if c = CHR '':'' \<and> takeWhile non_slash cs \<noteq> []
      then ''([^/]+)'' @ replace_colon (dropWhile non_slash cs)
      else c # replace_colon cs)"
  by pat_completeness auto
termination
  by (relation "measure length") (auto simp: length_dropWhile_le less_Suc_eq_le)

definition compile_route :: "string \<Rightarrow> string" where
  "compile_route route = ''^'' @ replace_colon route @ ''$''"

subsection \<open>The pattern language of \<open>RegExp\<close>\<close>

text \<open>
  \<open>new RegExp(pattern)\<close> parses the text. The fragment of the pattern syntax modelled here:
  literal characters, \<open>.\<close>, the assertions \<open>^\<close> and \<open>$\<close>, alternation, capturing and
  \<open>(?:\<close> groups, character classes of single characters and ranges (negated or not), and
  the quantifiers \<open>*\<close>, \<open>+\<close>, \<open>?\<close> with their lazy forms. No flag is given, so matching is
  case-sensitive, \<open>^\<close> and \<open>$\<close> match at the two ends of the input only, and \<open>.\<close> excludes
  the line terminators.
\<close>

datatype cls_item = Single char | Range char char

datatype rx =
    Empty
  | Chr char
  | Dot
  | Cls bool "cls_item list"
  | Bol
  | Eol
  | Cat rx rx
  | Alt rx rx
  | Star rx
  | Plus rx
  | Opt rx
  | Group bool rx

abbreviation backslash :: char where
  "backslash \<equiv> CHR 0x5C"

text \<open>
  What reading a pattern, or a part of one, gives: the expression; \<open>Malformed\<close>, for a
  pattern that \<open>new RegExp\<close> rejects with a \<open>SyntaxError\<close> (a group or a class that is not
  closed, a closing parenthesis without its group, a quantifier with nothing to repeat, a
  class range out of order); or \<open>Outside\<close>, when the reader meets syntax outside the
  modelled fragment before it meets such an error.
\<close>

datatype 'a parse_result = Parsed 'a | Malformed | Outside

text \<open>The members of a character class, read up to the closing bracket.\<close>

fun class_items :: "string \<Rightarrow> (cls_item list \<times> string) parse_result" where
  "class_items [] = Malformed"
| "class_items (c # d # e # cs) =
     (if c = CHR '']'' then Parsed ([], d # e # cs)
      else if c = backslash then Outside
      else if d = CHR ''-'' \<and> e \<noteq> CHR '']'' then
        (if e = backslash then Outside
         else if (of_char e :: nat) < of_char c then Malformed
         else map_parse_result (\<lambda>(its, r). (Range c e # its, r)) (class_items cs))
      else map_parse_result (\<lambda>(its, r). (Single c # its, r)) (class_items (d # e # cs)))"
| "class_items (c # cs) =
     (if c = CHR '']'' then Parsed ([], cs)
      else if c = backslash then Outside
      else map_parse_result (\<lambda>(its, r). (Single c # its, r)) (class_items cs))"

definition parse_class :: "string \<Rightarrow> (rx \<times> string) parse_result" where
  "parse_class cs =
     (case cs of
        c # cs' \<Rightarrow>
          (if c = CHR ''^''
           then map_parse_result (\<lambda>(its, r). (Cls True its, r)) (class_items cs')
           else map_parse_result (\<lambda>(its, r). (Cls False its, r)) (class_items cs))
      | [] \<Rightarrow> Malformed)"

lemma map_parse_result_Parsed:
  "(map_parse_result f r = Parsed y) = (\<exists>x. r = Parsed x \<and> y = f x)"
  by (cases r) auto

lemma class_items_shorter: "class_items cs = Parsed (its, r) \<Longrightarrow> length r < length cs"
  by (induction cs arbitrary: its r rule: class_items.induct)
     (auto split: if_splits simp: less_Suc_eq map_parse_result_Parsed)

lemma parse_class_shorter: "parse_class cs = Parsed (x, r) \<Longrightarrow> length r < length cs"
  by (auto simp: parse_class_def less_Suc_eq map_parse_result_Parsed
      split: list.splits if_splits dest!: class_items_shorter)

text \<open>
  The sequence being read is kept in reverse; \<open>mk_seq\<close> and \<open>mk_alt\<close> put a finished
  alternative and a finished disjunction together.
\<close>

definition mk_seq :: "rx list \<Rightarrow> rx" where
  "mk_seq sq = fold Cat sq Empty"

definition mk_alt :: "rx list \<Rightarrow> rx list \<Rightarrow> rx" where
  "mk_alt alts sq = fold Alt alts (mk_seq sq)"

text \<open>What a quantifier character may attach to: nothing, the atom just read, or a quantifier
  just read (which a following \<open>?\<close> makes lazy).\<close>

datatype qstate = QNone | QAtom | QQuant

type_synonym frame = "bool \<times> rx list \<times> rx list"

function parse ::
  "frame list \<Rightarrow> bool \<Rightarrow> rx list \<Rightarrow> rx list \<Rightarrow> qstate \<Rightarrow> string \<Rightarrow> rx parse_result" where
  "parse stk cap alts sq q [] = (if stk = [] then Parsed (mk_alt alts sq) else Malformed)"
| "parse stk cap alts sq q (c # cs) =
     (if c = CHR ''('' then
        (case cs of
           d # cs' \<Rightarrow>
             (if d = CHR ''?'' then
                (case cs' of
                   e # cs'' \<Rightarrow>
                     (if e = CHR '':'' then parse ((cap, alts, sq) # stk) False [] [] QNone cs''
                      else Outside)
                 | [] \<Rightarrow> Outside)
              else parse ((cap, alts, sq) # stk) True [] [] QNone cs)
         | [] \<Rightarrow> Malformed)
      else if c = CHR '')'' then
        (case stk of
           [] \<Rightarrow> Malformed
         | (cap', alts', sq') # stk' \<Rightarrow>
             parse stk' cap' alts' (Group cap (mk_alt alts sq) # sq') QAtom cs)
      else if c = CHR ''|'' then parse stk cap (mk_seq sq # alts) [] QNone cs
      else if c = CHR ''*'' then
        (case sq of
           r # sq' \<Rightarrow>
             (if q = QAtom then parse stk cap alts (Star r # sq') QQuant cs else Malformed)
         | [] \<Rightarrow> Malformed)
      else if c = CHR ''+'' then
        (case sq of
           r # sq' \<Rightarrow>
             (if q = QAtom then parse stk cap alts (Plus r # sq') QQuant cs else Malformed)
         | [] \<Rightarrow> Malformed)
      else if c = CHR ''?'' then
        (case sq of
           r # sq' \<Rightarrow>
             (if q = QAtom then parse stk cap alts (Opt r # sq') QQuant cs
              else if q = QQuant then parse stk cap alts sq QNone cs
              else Malformed)
         | [] \<Rightarrow> Malformed)
      else if c = CHR ''^'' then parse stk cap alts (Bol # sq) QNone cs
      else if c = CHR ''$'' then parse stk cap alts (Eol # sq) QNone cs
      else if c = CHR ''.'' then parse stk cap alts (Dot # sq) QAtom cs
      else if c = CHR ''['' then
        (case parse_class cs of
           Parsed (x, rest) \<Rightarrow> parse stk cap alts (x # sq) QAtom rest
         | Malformed \<Rightarrow> Malformed
         | Outside \<Rightarrow> Outside)
      else if c = backslash \<or> c = CHR ''{'' \<or> c = CHR ''}'' \<or> c = CHR '']'' then Outside
      else parse stk cap alts (Chr c # sq) QAtom cs)"
  by pat_completeness auto
termination
  by (relation "measure (\<lambda>(stk, cap, alts, sq, q, s). length s)")
     (auto dest: parse_class_shorter)

definition parse_pattern :: "string \<Rightarrow> rx parse_result" where
  "parse_pattern p = parse [] True [] [] QNone p"

subsection \<open>Matching\<close>

text \<open>
  The matcher follows the continuation style in which the language definition gives the
  semantics of patterns: \<open>matches n r k s\<close> holds when \<open>r\<close> matches a prefix of the
  remaining input \<open>s\<close> such that the continuation \<open>k\<close> accepts what is left; \<open>n\<close> is
  the length of the whole input, so that the position is \<open>n - length s\<close>. A repetition
  rejects an iteration that consumes nothing, as \<open>RepeatMatcher\<close> does, hence at most
  \<open>length s\<close> iterations are needed. The fragment has neither back references nor
  lookaround, so the order in which the alternatives are tried (greedy or lazy) does not
  change whether a match exists.
\<close>

fun in_class :: "char \<Rightarrow> cls_item list \<Rightarrow> bool" where
  "in_class x [] = False"
| "in_class x (Single c # its) = (x = c \<or> in_class x its)"
| "in_class x (Range lo hi # its) =
     (((of_char lo :: nat) \<le> of_char x \<and> (of_char x :: nat) \<le> of_char hi) \<or> in_class x its)"

definition line_terminator :: "char \<Rightarrow> bool" where
  "line_terminator x = (x = CHR 0x0A \<or> x = CHR 0x0D)"

fun star_iter ::
  "((string \<Rightarrow> bool) \<Rightarrow> string \<Rightarrow> bool) \<Rightarrow> nat \<Rightarrow> (string \<Rightarrow> bool) \<Rightarrow> string \<Rightarrow> bool" where
  "star_iter f 0 k s = k s"
| "star_iter f (Suc n) k s =
     (f (\<lambda>s'. length s' < length s \<and> star_iter f n k s') s \<or> k s)"

fun matches :: "nat \<Rightarrow> rx \<Rightarrow> (string \<Rightarrow> bool) \<Rightarrow> string \<Rightarrow> bool" where
  "matches n Empty k s = k s"
| "matches n (Chr c) k s = (case s of [] \<Rightarrow> False | x # xs \<Rightarrow> x = c \<and> k xs)"
| "matches n Dot k s = (case s of [] \<Rightarrow> False | x # xs \<Rightarrow> \<not> line_terminator x \<and> k xs)"
| "matches n (Cls neg its) k s =
     (case s of [] \<Rightarrow> False | x # xs \<Rightarrow> in_class x its \<noteq> neg \<and> k xs)"
| "matches n Bol k s = (length s = n \<and> k s)"
| "matches n Eol k s = (s = [] \<and> k s)"
| "matches n (Cat a b) k s = matches n a (\<lambda>s'. matches n b k s') s"
| "matches n (Alt a b) k s = (matches n a k s \<or> matches n b k s)"
| "matches n (Star a) k s = star_iter (\<lambda>k' s'. matches n a k' s') (length s) k s"
| "matches n (Plus a) k s =
     matches n a (\<lambda>s'. star_iter (\<lambda>k' s''. matches n a k' s'') (length s') k s') s"
| "matches n (Opt a) k s = (matches n a (\<lambda>s'. length s' < length s \<and> k s') s \<or> k s)"
| "matches n (Group cap a) k s = matches n a k s"

text \<open>
  \<open>RegExp.prototype.test\<close> without the global or sticky flag starts at index 0 and tries
  every start position up to the end of the input.
\<close>

definition rx_search :: "rx \<Rightarrow> string \<Rightarrow> bool" where
  "rx_search r s = list_ex (\<lambda>i. matches (length s) r (\<lambda>_. True) (drop i s)) [0..<Suc (length s)]"

text \<open>
  A value that is thrown, or with which a promise is rejected. A \<open>SyntaxError\<close> of the
  \<open>RegExp\<close> constructor is kept with the pattern it rejects.
\<close>

datatype exn = SyntaxError string | Thrown string

text \<open>
  \<open>new RegExp(pattern).test(s)\<close>. The constructor throws a \<open>SyntaxError\<close> for a
  malformed pattern, before anything is tested. For a pattern with syntax outside the
  modelled fragment (escapes, braces, lookaround, named groups) the engine's answer, a
  \<open>SyntaxError\<close> or a match result, is the parameter \<open>ext\<close>.
\<close>

type_synonym engine = "string \<Rightarrow> string \<Rightarrow> exn + bool"

definition RegExp_test :: "engine \<Rightarrow> string \<Rightarrow> string \<Rightarrow> exn + bool" where
  "RegExp_test ext pattern s =
     (case parse_pattern pattern of
        Parsed r \<Rightarrow> Inr (rx_search r s)
      | Malformed \<Rightarrow> Inl (SyntaxError pattern)
      | Outside \<Rightarrow> ext pattern s)"

section \<open>The data model (\<open>src/types.ts\<close>)\<close>

text \<open>
  Every property of the metadata types is optional; \<open>None\<close> is an absent key (a key that
  is present with the value \<open>undefined\<close> is not represented). The values
  under \<open>jsonLd\<close> are arbitrary structured data, which nothing here computes with (numbers
  are kept as integers).
\<close>

datatype json =
    JNull
  | JBool bool
  | JNum int
  | JStr string
  | JArr "json list"
  | JObj "(string \<times> json) list"

record open_graph_meta =
  og_type :: "string option"
  og_image :: "string option"
  og_url :: "string option"

record twitter_meta =
  tw_card :: "string option"
  tw_site :: "string option"
  tw_creator :: "string option"
  tw_image :: "string option"

record route_meta =
  title :: "string option"
  description :: "string option"
  openGraph :: "open_graph_meta option"
  twitter :: "twitter_meta option"
  jsonLd :: "(string \<times> json) list option"

datatype query_value = QString string | QStrings "string list"

record ctx =
  params :: "(string \<times> string) list"
  query :: "(string \<times> query_value) list option"

text \<open>
  A \<open>MetadataResolver\<close> is host code: it may read and change the world outside (type
  \<open>'w\<close>: the network, a database, a clock) and it may throw or return a promise that
  rejects (\<open>Inl\<close>). \<open>await\<close> makes no difference between a plain result and a promise.
  The functions are total: a promise that never settles is not modelled.
\<close>

type_synonym 'w resolver = "ctx \<Rightarrow> 'w \<Rightarrow> (exn + route_meta) \<times> 'w"

text \<open>
  A value of \<open>config.routes\<close> is a plain record or a function; the resolver tells them
  apart with \<open>typeof routeMeta === "function"\<close>.
\<close>

datatype 'w route_entry = Static route_meta | Dynamic "'w resolver"

text \<open>
  \<open>routes\<close> lists the properties of the \<open>config.routes\<close> object in the order in which
  they were inserted; an object holds one property for each key.
\<close>

record 'w metadata_config =
  defaults :: "route_meta option"
  routes :: "(string \<times> 'w route_entry) list"

subsection \<open>The order of \<open>Object.keys\<close>\<close>

text \<open>
  \<open>Object.keys\<close> lists the own string keys of an object: first the keys that are array
  indices (the canonical decimal form of an integer from 0 up to \<open>2\<^sup>3\<^sup>2 - 2\<close>), in
  ascending numeric order, then every other key in insertion order.
\<close>

definition is_digit :: "char \<Rightarrow> bool" where
  "is_digit c = ((48::nat) \<le> of_char c \<and> (of_char c :: nat) \<le> 57)"

definition dec_value :: "string \<Rightarrow> int" where
  "dec_value k = fold (\<lambda>c n. 10 * n + (of_char c - 48)) k 0"

definition is_array_index :: "string \<Rightarrow> bool" where
  "is_array_index k =
     (k \<noteq> [] \<and> list_all is_digit k \<and> (k = ''0'' \<or> hd k \<noteq> CHR ''0'') \<and>
      dec_value k < 4294967295)"

definition Object_keys :: "(string \<times> 'v) list \<Rightarrow> string list" where
  "Object_keys obj =
     sort_key dec_value (filter is_array_index (map fst obj)) @
     filter (\<lambda>k. \<not> is_array_index k) (map fst obj)"

section \<open>The resolver (\<open>src/utils/resolveMetadata.ts\<close>)\<close>

text \<open>
  \<^verbatim>\<open>
  function matchRoute(path, config) {
    for (const route of Object.keys(config.routes)) {
      const pattern = "^" + route.replace(/:[^/]+/g, "([^/]+)") + "$";
      if (new RegExp(pattern).test(path)) return route;
    }
    return null;
  }\<close>
  An exception of \<open>new RegExp\<close> leaves the loop and the function.
\<close>

fun matchRoute_loop :: "engine \<Rightarrow> string \<Rightarrow> string list \<Rightarrow> exn + string option" where
  "matchRoute_loop ext path [] = Inr None"
| "matchRoute_loop ext path (route # rest) =
     (case RegExp_test ext (compile_route route) path of
        Inl e \<Rightarrow> Inl e
      | Inr True \<Rightarrow> Inr (Some route)
      | Inr False \<Rightarrow> matchRoute_loop ext path rest)"

definition matchRoute :: "engine \<Rightarrow> string \<Rightarrow> 'w metadata_config \<Rightarrow> exn + string option" where
  "matchRoute ext path config = matchRoute_loop ext path (Object_keys (routes config))"

text \<open>
  The object spread \<open>{...a, ...b}\<close> copies the own properties of \<open>a\<close> and then those of
  \<open>b\<close> into a fresh object; a source that is \<open>undefined\<close> contributes nothing.
\<close>

definition empty_meta :: route_meta where
  "empty_meta = \<lparr>title = None, description = None, openGraph = None, twitter = None,
                 jsonLd = None\<rparr>"

definition override :: "'a option \<Rightarrow> 'a option \<Rightarrow> 'a option" where
  "override old new = (case new of Some v \<Rightarrow> Some v | None \<Rightarrow> old)"

definition assign :: "route_meta \<Rightarrow> route_meta option \<Rightarrow> route_meta" where
  "assign target source =
     (case source of
        None \<Rightarrow> target
      | Some s \<Rightarrow>
          \<lparr>title = override (title target) (title s),
           description = override (description target) (description s),
           openGraph = override (openGraph target) (openGraph s),
           twitter = override (twitter target) (twitter s),
           jsonLd = override (jsonLd target) (jsonLd s)\<rparr>)"

definition spread :: "route_meta option \<Rightarrow> route_meta option \<Rightarrow> route_meta" where
  "spread a b = assign (assign empty_meta a) b"

text \<open>
  \<^verbatim>\<open>
  export async function resolveMetadata(config, path, params = {}) {
    const routeKey = matchRoute(path, config);
    if (!routeKey) return config.defaults ?? {};
    const routeMeta = config.routes[routeKey];
    if (typeof routeMeta === "function") {
      return { ...config.defaults, ...(await routeMeta({ params })) };
    } else {
      return { ...config.defaults, ...routeMeta };
    }
  }\<close>
  The third argument is \<open>None\<close> when the caller leaves it out. The result is the settled
  promise, \<open>Inl\<close> when it rejects, together with the world as the call leaves it.
  \<open>!routeKey\<close> holds for \<open>null\<close> and for the empty string.
\<close>

definition resolveMetadata ::
  "engine \<Rightarrow> 'w metadata_config \<Rightarrow> string \<Rightarrow> (string \<times> string) list option \<Rightarrow> 'w \<Rightarrow>
     (exn + route_meta) \<times> 'w" where
  "resolveMetadata ext config path params_arg w =
     (let ps = (case params_arg of None \<Rightarrow> [] | Some p \<Rightarrow> p) in
      case matchRoute ext path config of
        Inl e \<Rightarrow> (Inl e, w)
      | Inr routeKey \<Rightarrow>
          (if routeKey = None \<or> routeKey = Some []
           then (Inr (case defaults config of None \<Rightarrow> empty_meta | Some d \<Rightarrow> d), w)
           else
             (case map_of (routes config) (the routeKey) of
                Some (Dynamic f) \<Rightarrow>
                  (case f \<lparr>params = ps, query = None\<rparr> w of
                     (Inl e, w') \<Rightarrow> (Inl e, w')
                   | (Inr r, w') \<Rightarrow> (Inr (spread (defaults config) (Some r)), w'))
              | Some (Static m) \<Rightarrow> (Inr (spread (defaults config) (Some m)), w)
              | None \<Rightarrow> (Inr (spread (defaults config) None), w))))"

section \<open>The hydrator (\<open>src/client/MetadataHydrator.ts\<close>)\<close>

text \<open>
  The part of the browser document that \<open>updateMeta\<close> reads and writes: the document
  title, and the elements below \<open>head\<close> and below \<open>body\<close>, each in document order. An
  element has a tag and attributes, kept in the order in which they were set. A reference
  to an element that is in the document is its position.
\<close>

record element =
  tag :: string
  attrs :: "(string \<times> string) list"

record document =
  doc_title :: string
  head :: "element list"
  body :: "element list"

datatype node_ref = InHead nat | InBody nat

definition createElement :: "string \<Rightarrow> element" where
  "createElement t = \<lparr>tag = t, attrs = []\<rparr>"

text \<open>\<open>setAttribute\<close> replaces the value of an attribute that exists and adds one that
  does not.\<close>

definition el_setAttribute :: "string \<Rightarrow> string \<Rightarrow> element \<Rightarrow> element" where
  "el_setAttribute a v e = e\<lparr>attrs := AList.update a v (attrs e)\<rparr>"

definition setAttribute :: "node_ref \<Rightarrow> string \<Rightarrow> string \<Rightarrow> document \<Rightarrow> document" where
  "setAttribute r a v doc =
     (case r of
        InHead i \<Rightarrow> doc\<lparr>head := (head doc)[i := el_setAttribute a v (head doc ! i)]\<rparr>
      | InBody i \<Rightarrow> doc\<lparr>body := (body doc)[i := el_setAttribute a v (body doc ! i)]\<rparr>)"

definition appendChild_head :: "element \<Rightarrow> document \<Rightarrow> document \<times> node_ref" where
  "appendChild_head e doc = (doc\<lparr>head := head doc @ [e]\<rparr>, InHead (length (head doc)))"

text \<open>The selector \<open>t[a="v"]\<close>, and \<open>querySelector\<close>: the first element in document
  order that the selector matches, or \<open>null\<close>.\<close>

definition attr_selector :: "string \<Rightarrow> string \<Rightarrow> string \<Rightarrow> element \<Rightarrow> bool" where
  "attr_selector t a v e = (tag e = t \<and> map_of (attrs e) a = Some v)"

fun find_index :: "('a \<Rightarrow> bool) \<Rightarrow> 'a list \<Rightarrow> nat option" where
  "find_index P [] = None"
| "find_index P (x # xs) = (if P x then Some 0 else map_option Suc (find_index P xs))"

definition querySelector :: "document \<Rightarrow> (element \<Rightarrow> bool) \<Rightarrow> node_ref option" where
  "querySelector doc P =
     (case find_index P (head doc) of
        Some i \<Rightarrow> Some (InHead i)
      | None \<Rightarrow> map_option InBody (find_index P (body doc)))"

text \<open>
  The block that the source writes once for each meta element:
  \<^verbatim>\<open>
  let desc = document.querySelector('meta[name="description"]');
  if (!desc) {
    desc = document.createElement("meta");
    desc.setAttribute("name", "description");
    document.head.appendChild(desc);
  }
  desc.setAttribute("content", meta.description);\<close>
\<close>

definition upsert_meta :: "string \<Rightarrow> string \<Rightarrow> string \<Rightarrow> document \<Rightarrow> document" where
  "upsert_meta a v c doc =
     (case querySelector doc (attr_selector ''meta'' a v) of
        Some r \<Rightarrow> setAttribute r ''content'' c doc
      | None \<Rightarrow>
          (case appendChild_head (el_setAttribute a v (createElement ''meta'')) doc of
             (doc', r) \<Rightarrow> setAttribute r ''content'' c doc'))"

text \<open>A string property in a condition: \<open>undefined\<close> and the empty string are falsy.\<close>

definition truthy :: "string option \<Rightarrow> bool" where
  "truthy v = (case v of None \<Rightarrow> False | Some s \<Rightarrow> s \<noteq> [])"

text \<open>\<open>meta.openGraph?.image\<close>\<close>

definition openGraph_image :: "route_meta \<Rightarrow> string option" where
  "openGraph_image m = (case openGraph m of None \<Rightarrow> None | Some og \<Rightarrow> og_image og)"

text \<open>
  \<^verbatim>\<open>
  async function updateMeta() {
    const res = await fetch(`/api/metadata?path=${pathname}`);
    const meta = await res.json();
    if (meta.title) document.title = meta.title;
    if (meta.description) { ... }
    if (meta.openGraph?.image) { ... }
  }\<close>
  \<open>fetch\<close> stands for the request and the parsing of its body; the body is taken to
  have the shape of \<open>RouteMeta\<close>. When either fails the promise of \<open>updateMeta\<close> rejects
  before the document is touched.
\<close>

definition apply_meta :: "route_meta \<Rightarrow> document \<Rightarrow> document" where
  "apply_meta m doc =
     (let doc1 = (if truthy (title m) then doc\<lparr>doc_title := the (title m)\<rparr> else doc);
          doc2 = (if truthy (description m)
                  then upsert_meta ''name'' ''description'' (the (description m)) doc1
                  else doc1);
          doc3 = (if truthy (openGraph_image m)
                  then upsert_meta ''property'' ''og:image'' (the (openGraph_image m)) doc2
                  else doc2)
      in doc3)"

definition updateMeta ::
  "(string \<Rightarrow> exn + route_meta) \<Rightarrow> string \<Rightarrow> document \<Rightarrow> exn option \<times> document" where
  "updateMeta fetch pathname doc =
     (case fetch (''/api/metadata?path='' @ pathname) of
        Inl e \<Rightarrow> (Some e, doc)
      | Inr m \<Rightarrow> (None, apply_meta m doc))"

section \<open>Reference definitions\<close>

text \<open>
  How the specification reads a route pattern: a sequence of literal characters and of
  wildcards, a wildcard standing for one or more characters other than a slash.
  \<open>tokens\<close> cuts a pattern where \<open>replace_colon\<close> substitutes, \<open>tok_text\<close> is the
  pattern text of a token and \<open>tmatch\<close> says when a path is an instance of a token
  sequence. A token sequence is \<open>plain\<close> when no literal character is a syntax character
  of the pattern language; \<open>tok_rx\<close> is the expression that a token's text parses to.
\<close>

datatype tok = Lit char | Wild

function tokens :: "string \<Rightarrow> tok list" where
  "tokens [] = []"
| "tokens (c # cs) =
     (if c = CHR '':'' \<and> takeWhile non_slash cs \<noteq> []
      then Wild # tokens (dropWhile non_slash cs)
      else Lit c # tokens cs)"
  by pat_completeness auto
termination
  by (relation "measure length") (auto simp: length_dropWhile_le less_Suc_eq_le)

fun tok_text :: "tok \<Rightarrow> string" where
  "tok_text (Lit c) = [c]"
| "tok_text Wild = ''([^/]+)''"

fun tmatch :: "tok list \<Rightarrow> string \<Rightarrow> bool" where
  "tmatch [] p = (p = [])"
| "tmatch (Lit c # ts) p = (case p of [] \<Rightarrow> False | x # xs \<Rightarrow> x = c \<and> tmatch ts xs)"
| "tmatch (Wild # ts) p =
     list_ex (\<lambda>i. tmatch ts (drop i p)) [1..<Suc (length (takeWhile non_slash p))]"

definition syntax_char :: "char \<Rightarrow> bool" where
  "syntax_char c = (c \<in> set ''^$.*+?()[]{}|'' \<or> c = backslash)"

definition plain :: "tok list \<Rightarrow> bool" where
  "plain ts = list_all (\<lambda>t. case t of Lit c \<Rightarrow> \<not> syntax_char c | Wild \<Rightarrow> True) ts"

fun tok_rx :: "tok \<Rightarrow> rx" where
  "tok_rx (Lit c) = Chr c"
| "tok_rx Wild = Group True (Cat (Plus (Cls True [Single CHR ''/''])) Empty)"

text \<open>
  A resolver is pure when a call leaves the world as it was and its result does not
  depend on the world.
\<close>

definition pure_resolver :: "'w resolver \<Rightarrow> bool" where
  "pure_resolver f = ((\<forall>c w. snd (f c w) = w) \<and> (\<forall>c w w'. fst (f c w) = fst (f c w')))"

text \<open>
  The patches of the hydrator as the specification words them. ``Creates or updates a
  meta element'': the first element that the selector matches, below \<open>head\<close> before
  \<open>body\<close>, gets the content; when there is none, a meta element with the selector's
  attribute and the content becomes the last child of \<open>head\<close>. \<open>three_patches\<close> applies
  the title, the description and the Open Graph image, each when the field is a string
  that is not empty.
\<close>

definition element_at :: "document \<Rightarrow> node_ref \<Rightarrow> element" where
  "element_at doc r = (case r of InHead i \<Rightarrow> head doc ! i | InBody i \<Rightarrow> body doc ! i)"

text \<open>A reference that points into the document.\<close>

definition in_document :: "document \<Rightarrow> node_ref \<Rightarrow> bool" where
  "in_document doc r =
     (case r of InHead i \<Rightarrow> i < length (head doc) | InBody i \<Rightarrow> i < length (body doc))"

fun set_first_content :: "(element \<Rightarrow> bool) \<Rightarrow> string \<Rightarrow> element list \<Rightarrow> element list" where
  "set_first_content P c [] = []"
| "set_first_content P c (e # es) =
     (if P e then e\<lparr>attrs := AList.update ''content'' c (attrs e)\<rparr> # es
      else e # set_first_content P c es)"

definition create_or_update :: "string \<Rightarrow> string \<Rightarrow> string \<Rightarrow> document \<Rightarrow> document" where
  "create_or_update a v c doc =
     (if list_ex (attr_selector ''meta'' a v) (head doc)
      then doc\<lparr>head := set_first_content (attr_selector ''meta'' a v) c (head doc)\<rparr>
      else if list_ex (attr_selector ''meta'' a v) (body doc)
      then doc\<lparr>body := set_first_content (attr_selector ''meta'' a v) c (body doc)\<rparr>
      else doc\<lparr>head := head doc @ [\<lparr>tag = ''meta'', attrs = [(a, v), (''content'', c)]\<rparr>]\<rparr>)"

definition three_patches :: "route_meta \<Rightarrow> document \<Rightarrow> document" where
  "three_patches m doc =
     (let d1 = (case title m of
                  Some t \<Rightarrow> if t \<noteq> [] then doc\<lparr>doc_title := t\<rparr> else doc
                | None \<Rightarrow> doc);
          d2 = (case description m of
                  Some c \<Rightarrow> if c \<noteq> [] then create_or_update ''name'' ''description'' c d1 else d1
                | None \<Rightarrow> d1)
      in (case openGraph m of
            Some og \<Rightarrow>
              (case og_image og of
                 Some c \<Rightarrow> if c \<noteq> [] then create_or_update ''property'' ''og:image'' c d2 else d2
               | None \<Rightarrow> d2)
          | None \<Rightarrow> d2))"

text \<open>An engine that reports every pattern outside the modelled fragment as a syntax
  error, and two records, for the concrete examples.\<close>

definition no_engine :: engine where
  "no_engine p s = Inl (SyntaxError p)"

definition titled :: "string \<Rightarrow> route_meta" where
  "titled t = empty_meta\<lparr>title := Some t\<rparr>"

section \<open>Pattern compilation and matching\<close>

lemma replace_colon_tokens: "replace_colon r = concat (map tok_text (tokens r))"
  by (induction r rule: replace_colon.induct) auto

lemma parse_tokens:
  "plain ts \<Longrightarrow>
   parse stk cap alts sq q (concat (map tok_text ts) @ rest) =
   parse stk cap alts (rev (map tok_rx ts) @ sq) (if ts = [] then q else QAtom) rest"
proof (induction ts arbitrary: sq q)
  case Nil
  then show ?case by simp
next
  case (Cons t ts)
  then have p: "plain ts" by (simp add: plain_def)
  show ?case
  proof (cases t)
    case (Lit c)
    with Cons.prems have "\<not> syntax_char c" by (simp add: plain_def)
    then have "parse stk cap alts sq q (c # concat (map tok_text ts) @ rest) =
        parse stk cap alts (Chr c # sq) QAtom (concat (map tok_text ts) @ rest)"
      by (simp add: syntax_char_def)
    then show ?thesis using Cons.IH[OF p, of "Chr c # sq" QAtom] Lit by simp
  next
    case Wild
    have "parse stk cap alts sq q (''([^/]+)'' @ concat (map tok_text ts) @ rest) =
        parse stk cap alts (tok_rx Wild # sq) QAtom (concat (map tok_text ts) @ rest)"
      by (simp add: parse_class_def mk_alt_def mk_seq_def)
    then show ?thesis using Cons.IH[OF p, of "tok_rx Wild # sq" QAtom] Wild by simp
  qed
qed

lemma parse_compile:
  assumes "plain (tokens r)"
  shows "parse_pattern (compile_route r) =
         Parsed (Cat Bol (foldr Cat (map tok_rx (tokens r)) (Cat Eol Empty)))"
proof -
  let ?ts = "tokens r"
  have "parse_pattern (compile_route r) =
        parse [] True [] [Bol] QNone (concat (map tok_text ?ts) @ ''$'')"
    by (simp add: parse_pattern_def compile_route_def replace_colon_tokens)
  also have "\<dots> = parse [] True [] (rev (map tok_rx ?ts) @ [Bol]) (if ?ts = [] then QNone else QAtom) ''$''"
    using parse_tokens[OF assms] by simp
  also have "\<dots> = Parsed (mk_alt [] (Eol # rev (map tok_rx ?ts) @ [Bol]))"
    by simp
  also have "mk_alt [] (Eol # rev (map tok_rx ?ts) @ [Bol]) =
             Cat Bol (foldr Cat (map tok_rx ?ts) (Cat Eol Empty))"
    by (simp add: mk_alt_def mk_seq_def foldr_conv_fold)
  finally show ?thesis .
qed


lemma ex_le_Suc: "(\<exists>i \<le> Suc N. P i) = (P 0 \<or> (\<exists>i \<le> N. P (Suc i)))"
proof
  assume "\<exists>i \<le> Suc N. P i"
  then obtain i where i: "i \<le> Suc N" "P i" by blast
  show "P 0 \<or> (\<exists>i \<le> N. P (Suc i))"
  proof (cases i)
    case 0
    with i show ?thesis by simp
  next
    case (Suc j)
    with i show ?thesis by auto
  qed
next
  assume "P 0 \<or> (\<exists>i \<le> N. P (Suc i))"
  then show "\<exists>i \<le> Suc N. P i" by auto
qed

lemma star_iter_non_slash:
  assumes f: "\<And>K s. f K s = (case s of [] \<Rightarrow> False | x # xs \<Rightarrow> non_slash x \<and> K xs)"
  shows "length s \<le> n \<Longrightarrow>
         star_iter f n k s = (\<exists>i \<le> length (takeWhile non_slash s). k (drop i s))"
proof (induction n arbitrary: s)
  case 0
  then show ?case by simp
next
  case (Suc n)
  show ?case
  proof (cases s)
    case Nil
    then show ?thesis by (simp add: f)
  next
    case (Cons x xs)
    with Suc.prems have "length xs \<le> n" by simp
    note ih = Suc.IH[OF this]
    show ?thesis
    proof (cases "x = CHR ''/''")
      case True
      with Cons show ?thesis by (simp add: f)
    next
      case False
      with Cons ih show ?thesis by (simp add: f ex_le_Suc disj_commute)
    qed
  qed
qed

lemma plus_non_slash:
  "matches m (Plus (Cls True [Single CHR ''/''])) k s =
   (\<exists>i. 1 \<le> i \<and> i \<le> length (takeWhile non_slash s) \<and> k (drop i s))"
proof (cases s)
  case Nil
  then show ?thesis by simp
next
  case (Cons x xs)
  let ?f = "matches m (Cls True [Single CHR ''/''])"
  have st: "star_iter ?f (length xs) k xs = (\<exists>i \<le> length (takeWhile non_slash xs). k (drop i xs))"
    by (rule star_iter_non_slash) (simp_all split: list.split)
  show ?thesis
  proof (cases "x = CHR ''/''")
    case True
    with Cons show ?thesis by simp
  next
    case False
    have "(\<exists>i. 1 \<le> i \<and> i \<le> Suc (length (takeWhile non_slash xs)) \<and> k (drop i (x # xs))) =
          (\<exists>i \<le> length (takeWhile non_slash xs). k (drop i xs))"
      (is "?L = ?R")
    proof
      assume ?L
      then obtain i where i: "1 \<le> i" "i \<le> Suc (length (takeWhile non_slash xs))" "k (drop i (x # xs))"
        by blast
      then obtain j where "i = Suc j" by (cases i) auto
      with i show ?R by auto
    next
      assume ?R
      then obtain j where "j \<le> length (takeWhile non_slash xs)" "k (drop j xs)" by blast
      then have "1 \<le> Suc j \<and> Suc j \<le> Suc (length (takeWhile non_slash xs)) \<and> k (drop (Suc j) (x # xs))"
        by simp
      then show ?L by blast
    qed
    with False Cons st show ?thesis by simp
  qed
qed
lemma matches_wild:
  "matches n (tok_rx Wild) k s =
   (\<exists>i. 1 \<le> i \<and> i \<le> length (takeWhile non_slash s) \<and> k (drop i s))"
  by (simp only: tok_rx.simps matches.simps(1,7,12) plus_non_slash)

lemma matches_lit:
  "matches n (tok_rx (Lit c)) k s = (case s of [] \<Rightarrow> False | x # xs \<Rightarrow> x = c \<and> k xs)"
  by simp

lemma matches_tokens:
  "matches n (foldr Cat (map tok_rx ts) (Cat Eol Empty)) (\<lambda>_. True) s = tmatch ts s"
proof (induction ts arbitrary: s)
  case Nil
  then show ?case by simp
next
  case (Cons t ts)
  have "matches n (foldr Cat (map tok_rx (t # ts)) (Cat Eol Empty)) (\<lambda>_. True) s =
        matches n (tok_rx t) (\<lambda>s'. matches n (foldr Cat (map tok_rx ts) (Cat Eol Empty)) (\<lambda>_. True) s') s"
    by (simp del: tok_rx.simps)
  also have "\<dots> = matches n (tok_rx t) (tmatch ts) s"
    by (simp only: Cons.IH)
  also have "\<dots> = tmatch (t # ts) s"
  proof (cases t)
    case (Lit c)
    then show ?thesis by (simp only: matches_lit tmatch.simps)
  next
    case Wild
    then show ?thesis by (auto simp only: matches_wild tmatch.simps list_ex_iff set_upt atLeastLessThan_iff less_Suc_eq_le)
  qed
  finally show ?case .
qed

lemma rx_search_anchored:
  "rx_search (Cat Bol r) s = matches (length s) r (\<lambda>_. True) s"
proof -
  have "drop i s = s" if "length s - i = length s" for i
  proof (cases "i = 0")
    case True
    then show ?thesis by simp
  next
    case False
    with that have "length s = 0" by arith
    then show ?thesis by simp
  qed
  then show ?thesis
    by (auto simp: rx_search_def list_ex_iff intro: bexI[of _ 0])
qed

lemma RegExp_test_plain:
  assumes "plain (tokens r)"
  shows "RegExp_test ext (compile_route r) p = Inr (tmatch (tokens r) p)"
  by (simp add: RegExp_test_def parse_compile[OF assms] rx_search_anchored matches_tokens
      del: matches.simps)

lemma replace_colon_no_colon:
  "CHR '':'' \<notin> set a \<Longrightarrow> replace_colon (a @ r) = a @ replace_colon r"
  by (induction a) auto

lemma takeWhile_run:
  "CHR ''/'' \<notin> set run \<Longrightarrow> rest = [] \<or> hd rest = CHR ''/'' \<Longrightarrow>
   takeWhile non_slash (run @ rest) = run \<and> dropWhile non_slash (run @ rest) = rest"
  by (induction run) (cases rest; auto)+

lemma replace_colon_run:
  assumes "run \<noteq> []" "CHR ''/'' \<notin> set run" "rest = [] \<or> hd rest = CHR ''/''"
  shows "replace_colon (CHR '':'' # run @ rest) = ''([^/]+)'' @ replace_colon rest"
  using assms takeWhile_run[OF assms(2,3)] by simp

lemma replace_colon_lone:
  assumes "rest = [] \<or> hd rest = CHR ''/''"
  shows "replace_colon (CHR '':'' # rest) = CHR '':'' # replace_colon rest"
  using assms by (cases rest) auto

lemma replace_colon_segment:
  assumes "CHR ''/'' \<notin> set seg"
  shows "replace_colon (seg @ CHR ''/'' # rest) = replace_colon seg @ CHR ''/'' # replace_colon rest"
proof (cases "CHR '':'' \<in> set seg")
  case False
  then show ?thesis
    using replace_colon_no_colon[of seg "CHR ''/'' # rest"] replace_colon_no_colon[of seg "[]"]
    by simp
next
  case True
  then obtain pre run where s: "seg = pre @ CHR '':'' # run" "CHR '':'' \<notin> set pre"
    by (auto dest: split_list_first)
  with assms have ns: "CHR ''/'' \<notin> set run" by simp
  show ?thesis
  proof (cases "run = []")
    case True
    have "replace_colon (CHR '':'' # CHR ''/'' # rest) = CHR '':'' # replace_colon (CHR ''/'' # rest)"
      by (rule replace_colon_lone) simp
    moreover have "replace_colon (CHR '':'' # []) = CHR '':'' # replace_colon []"
      by (rule replace_colon_lone) simp
    ultimately show ?thesis
      using s True replace_colon_no_colon[OF s(2), of "CHR '':'' # CHR ''/'' # rest"]
        replace_colon_no_colon[OF s(2), of "[CHR '':'']"]
      by simp
  next
    case False
    have "replace_colon (CHR '':'' # run @ CHR ''/'' # rest) =
          ''([^/]+)'' @ replace_colon (CHR ''/'' # rest)"
      by (rule replace_colon_run[OF False ns]) simp
    moreover have "replace_colon (CHR '':'' # run @ []) = ''([^/]+)'' @ replace_colon []"
      by (rule replace_colon_run[OF False ns]) simp
    ultimately show ?thesis
      using s replace_colon_no_colon[OF s(2), of "CHR '':'' # run @ CHR ''/'' # rest"]
        replace_colon_no_colon[OF s(2), of "CHR '':'' # run"]
      by simp
  qed
qed

lemma tmatch_lits: "tmatch (map Lit pre @ ts) p = (\<exists>q. p = pre @ q \<and> tmatch ts q)"
  by (induction pre arbitrary: p) (auto split: list.splits)

lemma tmatch_wild_last: "tmatch [Wild] p = (p \<noteq> [] \<and> CHR ''/'' \<notin> set p)"
proof -
  have "tmatch [Wild] p = (\<exists>i. 1 \<le> i \<and> i \<le> length (takeWhile non_slash p) \<and> length p \<le> i)"
    by (auto simp: list_ex_iff)
  also have "\<dots> = (p \<noteq> [] \<and> length (takeWhile non_slash p) = length p)"
    using length_takeWhile_le[of non_slash p] by (cases p) (auto intro: exI[of _ "length p"])
  also have "\<dots> = (p \<noteq> [] \<and> CHR ''/'' \<notin> set p)"
  proof (cases "CHR ''/'' \<in> set p")
    case True
    then have "takeWhile non_slash p \<noteq> p"
      by (auto simp: takeWhile_eq_all_conv)
    then have "length (takeWhile non_slash p) \<noteq> length p"
      by (metis takeWhile_eq_take take_all_iff le_refl)
    with True show ?thesis by simp
  next
    case False
    then have "takeWhile non_slash p = p"
      by (auto simp: takeWhile_eq_all_conv)
    then have "length (takeWhile non_slash p) = length p"
      by (rule arg_cong)
    with False show ?thesis by blast
  qed
  finally show ?thesis .
qed


section \<open>The route scan and the resolver\<close>

lemma matchRoute_loop_None:
  "(matchRoute_loop ext path ks = Inr None) =
   (\<forall>r\<in>set ks. RegExp_test ext (compile_route r) path = Inr False)"
  by (induction ks) (auto split: sum.splits bool.splits)

lemma matchRoute_loop_Some:
  "(matchRoute_loop ext path ks = Inr (Some k)) =
   (\<exists>bs cs. ks = bs @ k # cs \<and>
      (\<forall>r\<in>set bs. RegExp_test ext (compile_route r) path = Inr False) \<and>
      RegExp_test ext (compile_route k) path = Inr True)"
proof (induction ks)
  case Nil
  then show ?case by simp
next
  case (Cons a ks)
  let ?T = "\<lambda>r. RegExp_test ext (compile_route r) path"
  let ?R = "\<lambda>ks. \<exists>bs cs. ks = bs @ k # cs \<and> (\<forall>r\<in>set bs. ?T r = Inr False) \<and> ?T k = Inr True"
  consider (err) e where "?T a = Inl e" | (hit) "?T a = Inr True" | (miss) "?T a = Inr False"
    by (cases "?T a") auto
  then show ?case
  proof cases
    case err
    have "\<not> ?R (a # ks)"
    proof
      assume "?R (a # ks)"
      then obtain bs cs where h: "a # ks = bs @ k # cs" "\<forall>r\<in>set bs. ?T r = Inr False" "?T k = Inr True"
        by blast
      then show False using err by (cases bs) auto
    qed
    with err show ?thesis by simp
  next
    case hit
    have "?R (a # ks) = (a = k)"
    proof
      assume "?R (a # ks)"
      then obtain bs cs where h: "a # ks = bs @ k # cs" "\<forall>r\<in>set bs. ?T r = Inr False" "?T k = Inr True"
        by blast
      then show "a = k" using hit by (cases bs) auto
    next
      assume "a = k"
      then have "a # ks = [] @ k # ks \<and> (\<forall>r\<in>set []. ?T r = Inr False) \<and> ?T k = Inr True"
        using hit by simp
      then show "?R (a # ks)" by blast
    qed
    with hit show ?thesis by auto
  next
    case miss
    have "?R (a # ks) = ?R ks"
    proof
      assume "?R (a # ks)"
      then obtain bs cs where h: "a # ks = bs @ k # cs" "\<forall>r\<in>set bs. ?T r = Inr False" "?T k = Inr True"
        by blast
      show "?R ks"
      proof (cases bs)
        case Nil
        with h miss show ?thesis by simp
      next
        case (Cons b bs')
        with h have "ks = bs' @ k # cs \<and> (\<forall>r\<in>set bs'. ?T r = Inr False) \<and> ?T k = Inr True"
          by simp
        then show ?thesis by blast
      qed
    next
      assume "?R ks"
      then obtain bs cs where h: "ks = bs @ k # cs" "\<forall>r\<in>set bs. ?T r = Inr False" "?T k = Inr True"
        by blast
      then have "a # ks = (a # bs) @ k # cs \<and> (\<forall>r\<in>set (a # bs). ?T r = Inr False) \<and> ?T k = Inr True"
        using miss by simp
      then show "?R (a # ks)" by blast
    qed
    with miss Cons.IH show ?thesis by simp
  qed
qed

lemma matchRoute_loop_error:
  "(matchRoute_loop ext path ks = Inl err) =
   (\<exists>bs k cs. ks = bs @ k # cs \<and>
      (\<forall>r\<in>set bs. RegExp_test ext (compile_route r) path = Inr False) \<and>
      RegExp_test ext (compile_route k) path = Inl err)"
proof (induction ks)
  case Nil
  then show ?case by simp
next
  case (Cons a ks)
  let ?T = "\<lambda>r. RegExp_test ext (compile_route r) path"
  let ?R = "\<lambda>ks. \<exists>bs k cs. ks = bs @ k # cs \<and> (\<forall>r\<in>set bs. ?T r = Inr False) \<and> ?T k = Inl err"
  consider (fails) e where "?T a = Inl e" | (hit) "?T a = Inr True" | (miss) "?T a = Inr False"
    by (cases "?T a") auto
  then show ?case
  proof cases
    case fails
    have "?R (a # ks) = (e = err)"
    proof
      assume "?R (a # ks)"
      then obtain bs k cs where h: "a # ks = bs @ k # cs" "\<forall>r\<in>set bs. ?T r = Inr False"
        "?T k = Inl err"
        by blast
      then show "e = err" using fails by (cases bs) auto
    next
      assume "e = err"
      then have "a # ks = [] @ a # ks \<and> (\<forall>r\<in>set []. ?T r = Inr False) \<and> ?T a = Inl err"
        using fails by simp
      then show "?R (a # ks)" by blast
    qed
    with fails show ?thesis by auto
  next
    case hit
    have "\<not> ?R (a # ks)"
    proof
      assume "?R (a # ks)"
      then obtain bs k cs where h: "a # ks = bs @ k # cs" "\<forall>r\<in>set bs. ?T r = Inr False"
        "?T k = Inl err"
        by blast
      then show False using hit by (cases bs) auto
    qed
    with hit show ?thesis by simp
  next
    case miss
    have "?R (a # ks) = ?R ks"
    proof
      assume "?R (a # ks)"
      then obtain bs k cs where h: "a # ks = bs @ k # cs" "\<forall>r\<in>set bs. ?T r = Inr False"
        "?T k = Inl err"
        by blast
      show "?R ks"
      proof (cases bs)
        case Nil
        with h miss show ?thesis by simp
      next
        case (Cons b bs')
        with h have "ks = bs' @ k # cs \<and> (\<forall>r\<in>set bs'. ?T r = Inr False) \<and> ?T k = Inl err"
          by simp
        then show ?thesis by blast
      qed
    next
      assume "?R ks"
      then obtain bs k cs where h: "ks = bs @ k # cs" "\<forall>r\<in>set bs. ?T r = Inr False"
        "?T k = Inl err"
        by blast
      then have "a # ks = (a # bs) @ k # cs \<and> (\<forall>r\<in>set (a # bs). ?T r = Inr False) \<and>
          ?T k = Inl err"
        using miss by simp
      then show "?R (a # ks)" by blast
    qed
    with miss Cons.IH show ?thesis by simp
  qed
qed

lemma Object_keys_insertion_order:
  assumes "\<forall>k\<in>fst ` set obj. \<not> is_array_index k"
  shows "Object_keys obj = map fst obj"
proof -
  have "filter is_array_index (map fst obj) = []"
    using assms by (auto simp: filter_empty_conv)
  moreover have "filter (\<lambda>k. \<not> is_array_index k) (map fst obj) = map fst obj"
    using assms by (auto simp: filter_id_conv)
  ultimately show ?thesis by (simp add: Object_keys_def)
qed

lemma Object_keys_order:
  "\<exists>ixs. Object_keys obj = ixs @ filter (\<lambda>r. \<not> is_array_index r) (map fst obj) \<and>
     list_all is_array_index ixs \<and> sorted (map dec_value ixs) \<and>
     set ixs = set (filter is_array_index (map fst obj))"
proof -
  let ?ixs = "sort_key dec_value (filter is_array_index (map fst obj))"
  have "Object_keys obj = ?ixs @ filter (\<lambda>r. \<not> is_array_index r) (map fst obj)"
    by (simp add: Object_keys_def)
  moreover have "set ?ixs = set (filter is_array_index (map fst obj))"
    by simp
  moreover from this have "list_all is_array_index ?ixs"
    by (simp add: list_all_iff)
  moreover have "sorted (map dec_value ?ixs)"
    by (rule sorted_sort_key)
  ultimately show ?thesis by blast
qed

lemma set_Object_keys: "set (Object_keys obj) = fst ` set obj"
  by (auto simp: Object_keys_def)

lemma resolveMetadata_unmatched:
  assumes "matchRoute ext path cfg = Inr None"
  shows "resolveMetadata ext cfg path pa w =
         (Inr (case defaults cfg of None \<Rightarrow> empty_meta | Some d \<Rightarrow> d), w)"
  using assms by (simp add: resolveMetadata_def)

lemma resolveMetadata_matched:
  assumes "matchRoute ext path cfg = Inr (Some k)" "k \<noteq> []"
  shows "resolveMetadata ext cfg path pa w =
         (case map_of (routes cfg) k of
            Some (Dynamic f) \<Rightarrow>
              (case f \<lparr>params = (case pa of None \<Rightarrow> [] | Some p \<Rightarrow> p), query = None\<rparr> w of
                 (Inl e, w') \<Rightarrow> (Inl e, w')
               | (Inr r, w') \<Rightarrow> (Inr (spread (defaults cfg) (Some r)), w'))
          | Some (Static m) \<Rightarrow> (Inr (spread (defaults cfg) (Some m)), w)
          | None \<Rightarrow> (Inr (spread (defaults cfg) None), w))"
  using assms by (simp add: resolveMetadata_def Let_def)

lemma resolveMetadata_empty_key:
  assumes "matchRoute ext path cfg = Inr (Some [])"
  shows "resolveMetadata ext cfg path pa w =
         (Inr (case defaults cfg of None \<Rightarrow> empty_meta | Some d \<Rightarrow> d), w)"
  using assms by (simp add: resolveMetadata_def)

lemma resolveMetadata_engine_error:
  assumes "matchRoute ext path cfg = Inl e"
  shows "resolveMetadata ext cfg path pa w = (Inl e, w)"
  using assms by (simp add: resolveMetadata_def)

text \<open>The definitions that a concrete call unfolds to.\<close>

lemmas eval_defs = resolveMetadata_def matchRoute_def Object_keys_def is_array_index_def
  is_digit_def dec_value_def RegExp_test_def compile_route_def parse_pattern_def
  parse_class_def mk_alt_def mk_seq_def rx_search_def spread_def assign_def override_def
  empty_meta_def titled_def no_engine_def

lemma tmatch_blog_slug:
  "tmatch (tokens ''/blog/:slug'') p =
   (\<exists>seg. p = ''/blog/'' @ seg \<and> seg \<noteq> [] \<and> CHR ''/'' \<notin> set seg)"
proof -
  have t: "tokens ''/blog/:slug'' = map Lit ''/blog/'' @ [Wild]"
    by simp
  show ?thesis unfolding t tmatch_lits tmatch_wild_last ..
qed

text \<open>
  The path reaches the result only through the key that the scan returns: the groups of the
  expression capture nothing that the resolver reads. The merge is by top-level field.
\<close>

lemma resolveMetadata_same_key:
  assumes "matchRoute ext p1 cfg = matchRoute ext p2 cfg"
  shows "resolveMetadata ext cfg p1 pa w = resolveMetadata ext cfg p2 pa w"
  using assms by (simp add: resolveMetadata_def)

lemma spread_fields:
  "title (spread d (Some r)) = (case title r of Some v \<Rightarrow> Some v | None \<Rightarrow> (case d of None \<Rightarrow> None | Some m \<Rightarrow> title m))"
  "description (spread d (Some r)) = (case description r of Some v \<Rightarrow> Some v | None \<Rightarrow> (case d of None \<Rightarrow> None | Some m \<Rightarrow> description m))"
  "openGraph (spread d (Some r)) = (case openGraph r of Some v \<Rightarrow> Some v | None \<Rightarrow> (case d of None \<Rightarrow> None | Some m \<Rightarrow> openGraph m))"
  "twitter (spread d (Some r)) = (case twitter r of Some v \<Rightarrow> Some v | None \<Rightarrow> (case d of None \<Rightarrow> None | Some m \<Rightarrow> twitter m))"
  "jsonLd (spread d (Some r)) = (case jsonLd r of Some v \<Rightarrow> Some v | None \<Rightarrow> (case d of None \<Rightarrow> None | Some m \<Rightarrow> jsonLd m))"
  by (simp_all add: spread_def assign_def override_def empty_meta_def split: option.splits)

section \<open>The hydrator's patches\<close>

lemma find_index_None: "(find_index P xs = None) = (\<not> list_ex P xs)"
  by (induction xs) auto


lemma update_at_first:
  "find_index P xs = Some i \<Longrightarrow>
   xs[i := el_setAttribute ''content'' c (xs ! i)] = set_first_content P c xs"
  by (induction xs arbitrary: i) (auto simp: el_setAttribute_def split: if_splits)

lemma upsert_meta_create_or_update:
  assumes "a \<noteq> ''content''"
  shows "upsert_meta a v c doc = create_or_update a v c doc"
proof (cases "find_index (attr_selector ''meta'' a v) (head doc)")
  case (Some i)
  then have "list_ex (attr_selector ''meta'' a v) (head doc)"
    using find_index_None[of "attr_selector ''meta'' a v" "head doc"] by simp
  with Some show ?thesis
    by (simp add: upsert_meta_def create_or_update_def querySelector_def setAttribute_def
        update_at_first)
next
  case None
  note h = None
  then have nh: "\<not> list_ex (attr_selector ''meta'' a v) (head doc)"
    by (simp add: find_index_None)
  show ?thesis
  proof (cases "find_index (attr_selector ''meta'' a v) (body doc)")
    case (Some i)
    then have "list_ex (attr_selector ''meta'' a v) (body doc)"
      using find_index_None[of "attr_selector ''meta'' a v" "body doc"] by simp
    with Some h nh show ?thesis
      by (simp add: upsert_meta_def create_or_update_def querySelector_def setAttribute_def
          update_at_first)
  next
    case None
    then have "\<not> list_ex (attr_selector ''meta'' a v) (body doc)"
      by (simp add: find_index_None)
    with None h nh assms show ?thesis
      by (simp add: upsert_meta_def create_or_update_def querySelector_def setAttribute_def
          appendChild_head_def el_setAttribute_def createElement_def)
  qed
qed

lemma apply_meta_three_patches: "apply_meta m doc = three_patches m doc"
  by (simp add: apply_meta_def three_patches_def truthy_def openGraph_image_def Let_def
      upsert_meta_create_or_update split: option.splits)

lemma selector_content_stable:
  assumes "b \<noteq> ''content''"
  shows "attr_selector t b u (e\<lparr>attrs := AList.update ''content'' c (attrs e)\<rparr>) =
         attr_selector t b u e"
  using assms by (simp add: attr_selector_def update_conv')

lemma find_index_set_first:
  assumes "\<And>e. Q (e\<lparr>attrs := AList.update ''content'' c (attrs e)\<rparr>) = Q e"
  shows "find_index Q (set_first_content P c xs) = find_index Q xs"
  by (induction xs) (simp_all add: assms)


lemma length_set_first: "length (set_first_content P c xs) = length xs"
  by (induction xs) auto

lemma find_index_append:
  "find_index Q (xs @ [e]) =
   (case find_index Q xs of Some i \<Rightarrow> Some i | None \<Rightarrow> if Q e then Some (length xs) else None)"
  by (induction xs) (auto split: option.splits)

lemma create_or_update_query:
  assumes "b \<noteq> ''content''"
    and "\<not> attr_selector t b u \<lparr>tag = ''meta'', attrs = [(a, v), (''content'', c)]\<rparr>"
  shows "querySelector (create_or_update a v c doc) (attr_selector t b u) =
         querySelector doc (attr_selector t b u)"
  using assms
  by (simp add: create_or_update_def querySelector_def find_index_set_first
      selector_content_stable find_index_append split: option.splits)


lemma create_or_update_frame:
  "doc_title (create_or_update a v c doc) = doc_title doc \<and>
   length (head doc) \<le> length (head (create_or_update a v c doc)) \<and>
   length (body (create_or_update a v c doc)) = length (body doc)"
  by (simp add: create_or_update_def length_set_first)

lemma title_update_query:
  "querySelector (doc\<lparr>doc_title := t\<rparr>) Q = querySelector doc Q \<and>
   element_at (doc\<lparr>doc_title := t\<rparr>) r = element_at doc r"
  by (simp add: querySelector_def element_at_def split: option.split node_ref.split)







lemma nth_set_first_other:
  "i < length xs \<Longrightarrow> find_index P xs \<noteq> Some i \<Longrightarrow> set_first_content P c xs ! i = xs ! i"
proof (induction xs arbitrary: i)
  case Nil
  then show ?case by simp
next
  case (Cons e es)
  show ?case
  proof (cases i)
    case 0
    with Cons.prems show ?thesis by (auto split: if_splits)
  next
    case (Suc j)
    show ?thesis
    proof (cases "P e")
      case True
      with Suc show ?thesis by simp
    next
      case False
      with Suc Cons.prems have "j < length es" "find_index P es \<noteq> Some j"
        by auto
      with Cons.IH Suc False show ?thesis by simp
    qed
  qed
qed

lemma create_or_update_other:
  assumes "in_document doc r"
    and "querySelector doc (attr_selector ''meta'' a v) \<noteq> Some r"
  shows "element_at (create_or_update a v c doc) r = element_at doc r \<and>
         in_document (create_or_update a v c doc) r"
proof (cases r)
  case (InHead i)
  with assms have "i < length (head doc)"
    "find_index (attr_selector ''meta'' a v) (head doc) \<noteq> Some i"
    by (auto simp: in_document_def querySelector_def split: option.splits)
  with InHead show ?thesis
    by (simp add: create_or_update_def element_at_def in_document_def nth_set_first_other
        nth_append length_set_first)
next
  case (InBody i)
  with assms have i: "i < length (body doc)" by (simp add: in_document_def)
  show ?thesis
  proof (cases "list_ex (attr_selector ''meta'' a v) (head doc)")
    case True
    with InBody i show ?thesis
      by (simp add: create_or_update_def element_at_def in_document_def)
  next
    case False
    then have "find_index (attr_selector ''meta'' a v) (head doc) = None"
      by (simp add: find_index_None)
    with assms(2) InBody have "find_index (attr_selector ''meta'' a v) (body doc) \<noteq> Some i"
      by (auto simp: querySelector_def)
    with InBody i False show ?thesis
      by (simp add: create_or_update_def element_at_def in_document_def nth_set_first_other
          length_set_first)
  qed
qed

lemma three_patches_title:
  "doc_title (three_patches m doc) = (if truthy (title m) then the (title m) else doc_title doc)"
  by (simp add: three_patches_def Let_def truthy_def create_or_update_frame split: option.splits)

lemma apply_meta_other_elements:
  assumes "in_document doc r"
    and "querySelector doc (attr_selector ''meta'' ''name'' ''description'') \<noteq> Some r"
    and "querySelector doc (attr_selector ''meta'' ''property'' ''og:image'') \<noteq> Some r"
  shows "element_at (apply_meta m doc) r = element_at doc r"
proof -
  define d1 where "d1 = (if truthy (title m) then doc\<lparr>doc_title := the (title m)\<rparr> else doc)"
  define d2 where "d2 = (if truthy (description m)
    then create_or_update ''name'' ''description'' (the (description m)) d1 else d1)"
  define d3 where "d3 = (if truthy (openGraph_image m)
    then create_or_update ''property'' ''og:image'' (the (openGraph_image m)) d2 else d2)"
  have e: "apply_meta m doc = d3"
    by (simp add: apply_meta_def d1_def d2_def d3_def Let_def upsert_meta_create_or_update)
  have q1: "querySelector d1 Q = querySelector doc Q" "element_at d1 r = element_at doc r"
    "in_document d1 r" for Q
    using assms(1)
    by (simp_all add: d1_def title_update_query in_document_def split: node_ref.splits)
  have s2: "element_at d2 r = element_at d1 r \<and> in_document d2 r"
    using create_or_update_other[of d1 r "''name''" "''description''"] q1 assms(2)
    by (simp add: d2_def)
  have q2: "querySelector d2 (attr_selector ''meta'' ''property'' ''og:image'') =
            querySelector d1 (attr_selector ''meta'' ''property'' ''og:image'')"
    by (simp add: d2_def create_or_update_query attr_selector_def)
  have s3: "element_at d3 r = element_at d2 r"
    using create_or_update_other[of d2 r "''property''" "''og:image''"] s2 q2 q1 assms(3)
    by (simp add: d3_def)
  from s3 s2 q1 show ?thesis unfolding e by simp
qed

text \<open>The definitions that a concrete call of the hydrator unfolds to.\<close>

lemmas hydrator_defs = updateMeta_def apply_meta_def upsert_meta_def querySelector_def
  setAttribute_def appendChild_head_def el_setAttribute_def createElement_def
  attr_selector_def truthy_def openGraph_image_def element_at_def in_document_def
  empty_meta_def titled_def

section \<open>The claims\<close>

subsection \<open>C1: the first matching route, in the order of \<open>Object.keys\<close>\<close>

text \<open>
  Claim C1, as amended. For every configuration and path, the route scan goes through the
  keys of \<open>routes\<close> in the order of \<open>Object.keys\<close>, which is the insertion order when no
  key is an array index (the keys that are array indices come first, in ascending
  numeric order, then the other keys in insertion order), and stops at the first key
  whose test does not return false. It
  returns a key exactly when the test of that key succeeds and the tests of all keys
  before it return false; it fails with an error exactly when \<open>new RegExp\<close> raises that
  error for a key and the tests of all keys before it return false, and the resolver then
  rejects with that error; it returns \<open>null\<close> exactly when every test returns false. The
  expression of a key is its text between \<open>^\<close> and \<open>$\<close> with every wildcard token
  replaced by the group \<open>([^/]+)\<close>; for a key without syntax characters of the pattern
  language among its literals the test succeeds exactly when the whole path is an
  instance of the pattern, a wildcard standing for one or more characters other than a
  slash. The resolver resolves the entry of the returned key (when the key is not
  empty). With the routes \<open>/blog/featured\<close> and \<open>/blog/:slug\<close> in this order, the path
  \<open>/blog/featured\<close> yields the result of the first.
\<close>

theorem C1_first_match_in_key_order:
  "((matchRoute ext path cfg = Inr (Some k)) =
      (\<exists>bs cs. Object_keys (routes cfg) = bs @ k # cs \<and>
         (\<forall>r\<in>set bs. RegExp_test ext (compile_route r) path = Inr False) \<and>
         RegExp_test ext (compile_route k) path = Inr True)) \<and>
   ((matchRoute ext path cfg = Inl err) =
      (\<exists>bs k' cs. Object_keys (routes cfg) = bs @ k' # cs \<and>
         (\<forall>r\<in>set bs. RegExp_test ext (compile_route r) path = Inr False) \<and>
         RegExp_test ext (compile_route k') path = Inl err)) \<and>
   ((matchRoute ext path cfg = Inr None) =
      (\<forall>r\<in>set (Object_keys (routes cfg)).
         RegExp_test ext (compile_route r) path = Inr False)) \<and>
   (matchRoute ext path cfg = Inl err \<longrightarrow>
      resolveMetadata ext cfg path pa w = (Inl err, w)) \<and>
   (\<exists>ixs. Object_keys (routes cfg) =
            ixs @ filter (\<lambda>r. \<not> is_array_index r) (map fst (routes cfg)) \<and>
          list_all is_array_index ixs \<and> sorted (map dec_value ixs) \<and>
          set ixs = set (filter is_array_index (map fst (routes cfg)))) \<and>
   ((\<forall>r\<in>fst ` set (routes cfg). \<not> is_array_index r) \<longrightarrow>
      Object_keys (routes cfg) = map fst (routes cfg)) \<and>
   compile_route route = ''^'' @ concat (map tok_text (tokens route)) @ ''$'' \<and>
   (plain (tokens route) \<longrightarrow>
      RegExp_test ext (compile_route route) path = Inr (tmatch (tokens route) path)) \<and>
   (matchRoute ext path cfg = Inr (Some k) \<and> k \<noteq> [] \<longrightarrow>
      resolveMetadata ext cfg path pa w =
        (case map_of (routes cfg) k of
           Some (Dynamic f) \<Rightarrow>
             (case f \<lparr>params = (case pa of None \<Rightarrow> [] | Some p \<Rightarrow> p), query = None\<rparr> w of
                (Inl e, w') \<Rightarrow> (Inl e, w')
              | (Inr r, w') \<Rightarrow> (Inr (spread (defaults cfg) (Some r)), w'))
         | Some (Static m) \<Rightarrow> (Inr (spread (defaults cfg) (Some m)), w)
         | None \<Rightarrow> (Inr (spread (defaults cfg) None), w))) \<and>
   resolveMetadata ext
     \<lparr>defaults = d, routes = [(''/blog/featured'', Static A), (''/blog/:slug'', B)]\<rparr>
     ''/blog/featured'' pa w = (Inr (spread d (Some A)), w)"
proof -
  let ?cfg = "\<lparr>defaults = d, routes = [(''/blog/featured'', Static A), (''/blog/:slug'', B)]\<rparr>"
  have "plain (tokens ''/blog/featured'')"
    by (simp add: plain_def syntax_char_def)
  then have "RegExp_test ext (compile_route ''/blog/featured'') ''/blog/featured'' = Inr True"
    by (simp add: RegExp_test_plain)
  then have "matchRoute ext ''/blog/featured'' ?cfg = Inr (Some ''/blog/featured'')"
    by (simp add: matchRoute_def Object_keys_def is_array_index_def is_digit_def)
  then have ex: "resolveMetadata ext ?cfg ''/blog/featured'' pa w = (Inr (spread d (Some A)), w)"
    by (simp add: resolveMetadata_matched)
  have sel: "(matchRoute ext path cfg = Inr (Some k)) =
      (\<exists>bs cs. Object_keys (routes cfg) = bs @ k # cs \<and>
         (\<forall>r\<in>set bs. RegExp_test ext (compile_route r) path = Inr False) \<and>
         RegExp_test ext (compile_route k) path = Inr True)"
    unfolding matchRoute_def by (rule matchRoute_loop_Some)
  have fails: "(matchRoute ext path cfg = Inl err) =
      (\<exists>bs k' cs. Object_keys (routes cfg) = bs @ k' # cs \<and>
         (\<forall>r\<in>set bs. RegExp_test ext (compile_route r) path = Inr False) \<and>
         RegExp_test ext (compile_route k') path = Inl err)"
    unfolding matchRoute_def by (rule matchRoute_loop_error)
  have none: "(matchRoute ext path cfg = Inr None) =
      (\<forall>r\<in>set (Object_keys (routes cfg)).
         RegExp_test ext (compile_route r) path = Inr False)"
    unfolding matchRoute_def by (rule matchRoute_loop_None)
  have shape: "compile_route route = ''^'' @ concat (map tok_text (tokens route)) @ ''$''"
    by (simp add: compile_route_def replace_colon_tokens)
  show ?thesis
    apply (intro conjI impI)
    subgoal by (rule sel)
    subgoal by (rule fails)
    subgoal by (rule none)
    subgoal by (rule resolveMetadata_engine_error)
    subgoal by (rule Object_keys_order)
    subgoal by (rule Object_keys_insertion_order)
    subgoal by (rule shape)
    subgoal by (rule RegExp_test_plain)
    subgoal by (rule resolveMetadata_matched) simp_all
    subgoal by (rule ex)
    done
qed

text \<open>The theorem of C1 at the two blog routes, none of whose keys is an array index and
  both of which match \<open>/blog/featured\<close>, and at a route \<open>(\<close>, which \<open>new RegExp\<close>
  rejects.\<close>

theorem C1_first_match_witness:
  "list_all (\<lambda>r. \<not> is_array_index r) [''/blog/featured'', ''/blog/:slug''] \<and>
   plain (tokens ''/blog/:slug'') \<and>
   Object_keys [(''/blog/featured'', Static (titled ''A'') :: unit route_entry),
                (''/blog/:slug'', Static (titled ''B''))]
     = [''/blog/featured'', ''/blog/:slug''] \<and>
   RegExp_test no_engine (compile_route ''/blog/:slug'') ''/blog/featured'' = Inr True \<and>
   matchRoute no_engine ''/blog/featured''
     \<lparr>defaults = None,
      routes = [(''/blog/featured'', Static (titled ''A'') :: unit route_entry),
                (''/blog/:slug'', Static (titled ''B''))]\<rparr>
     = Inr (Some ''/blog/featured'') \<and>
   resolveMetadata no_engine
     \<lparr>defaults = None,
      routes = [(''/blog/featured'', Static (titled ''A'')), (''/blog/:slug'', Static (titled ''B''))]\<rparr>
     ''/blog/featured'' None () = (Inr (titled ''A''), ()) \<and>
   matchRoute no_engine ''/x''
     \<lparr>defaults = None, routes = [(''('', Static (titled ''A'') :: unit route_entry)]\<rparr>
     = Inl (SyntaxError ''^($'')"
  using C1_first_match_in_key_order[where ext = no_engine and path = "''/blog/featured''"
      and cfg = "\<lparr>defaults = None,
        routes = [(''/blog/featured'', Static (titled ''A'') :: unit route_entry),
                  (''/blog/:slug'', Static (titled ''B''))]\<rparr>"
      and k = "''/blog/featured''" and route = "''/blog/:slug''" and pa = None and w = "()"
      and d = None and A = "titled ''A''" and B = "Static (titled ''B'')"]
    C1_first_match_in_key_order[where ext = no_engine and path = "''/x''"
      and cfg = "\<lparr>defaults = None, routes = [(''('', Static (titled ''A'') :: unit route_entry)]\<rparr>"
      and err = "SyntaxError ''^($''"]
  by (simp add: eval_defs plain_def syntax_char_def)

text \<open>
  Claim C1 as stated fails twice. Where a key is an array index: \<open>7\<close> is inserted after
  \<open>:a\<close>, both match the path \<open>7\<close>, and \<open>Object.keys\<close> lists \<open>7\<close> first, so the later route
  wins. And where \<open>new RegExp\<close> rejects a key: with the routes \<open>(\<close> and \<open>/x\<close>, the first
  pattern whose expression matches the path \<open>/x\<close> is \<open>/x\<close>, and no route is selected: the
  call rejects with the \<open>SyntaxError\<close> of \<open>^($\<close>.
\<close>

theorem C1_insertion_order_counterexample:
  "Object_keys [('':a'', Static (titled ''A'') :: unit route_entry), (''7'', Static (titled ''B''))]
     = [''7'', '':a''] \<and>
   RegExp_test no_engine (compile_route '':a'') ''7'' = Inr True \<and>
   RegExp_test no_engine (compile_route ''7'') ''7'' = Inr True \<and>
   resolveMetadata no_engine
     \<lparr>defaults = None, routes = [('':a'', Static (titled ''A'')), (''7'', Static (titled ''B''))]\<rparr>
     ''7'' None () = (Inr (titled ''B''), ()) \<and>
   RegExp_test no_engine (compile_route ''/x'') ''/x'' = Inr True \<and>
   resolveMetadata no_engine
     \<lparr>defaults = None, routes = [(''('', Static (titled ''A'')), (''/x'', Static (titled ''B''))]\<rparr>
     ''/x'' None () = (Inl (SyntaxError ''^($''), ())"
  by (simp add: eval_defs)

subsection \<open>C2: the merge of the defaults and the resolved record\<close>

text \<open>
  Claim C2 at the configuration \<open>{defaults: {title: 'Site'}, routes: {'': {title: 'Home'}}}\<close>
  and the empty path. The expression \<open>^$\<close> of the empty key matches the empty path and the
  scan returns that key, but \<open>!routeKey\<close> holds for the empty string as it does for
  \<open>null\<close>: the resolver returns the defaults, where the merge of the defaults and the
  record of the route has the title \<open>Home\<close>.
\<close>

theorem C2_empty_key_returns_defaults:
  "RegExp_test no_engine (compile_route '''') '''' = Inr True \<and>
   matchRoute no_engine ''''
     \<lparr>defaults = Some (titled ''Site''),
      routes = [('''', Static (titled ''Home'') :: unit route_entry)]\<rparr> = Inr (Some '''') \<and>
   resolveMetadata no_engine
     \<lparr>defaults = Some (titled ''Site''), routes = [('''', Static (titled ''Home''))]\<rparr>
     '''' None () = (Inr (titled ''Site''), ()) \<and>
   spread (Some (titled ''Site'')) (Some (titled ''Home'')) = titled ''Home''"
  by (simp add: eval_defs)

subsection \<open>C3: no matching route\<close>

text \<open>
  Claim C3, as amended. When the test of every route key against the path returns false,
  so that no pattern matches the path and \<open>new RegExp\<close> rejects none of them, the
  resolver returns \<open>config.defaults\<close>, or the empty record when there are no defaults,
  leaves the world as it is, and the result is the same for every \<open>params\<close> argument.
\<close>

theorem C3_unmatched_returns_defaults:
  assumes "\<forall>k\<in>fst ` set (routes cfg). RegExp_test ext (compile_route k) path = Inr False"
  shows "resolveMetadata ext cfg path pa w =
           (Inr (case defaults cfg of None \<Rightarrow> empty_meta | Some d \<Rightarrow> d), w) \<and>
         resolveMetadata ext cfg path pa' w = resolveMetadata ext cfg path pa w"
proof -
  have "matchRoute ext path cfg = Inr None"
    using assms by (simp add: matchRoute_def matchRoute_loop_None set_Object_keys)
  then show ?thesis by (simp add: resolveMetadata_unmatched)
qed

text \<open>The theorem of C3 at the scenario of the specification: the route \<open>/about\<close> and the
  path \<open>/missing\<close>, with the defaults \<open>{title: 'Site'}\<close> and without defaults.\<close>

theorem C3_unmatched_witness:
  "list_all (\<lambda>k. RegExp_test no_engine (compile_route k) ''/missing'' = Inr False) [''/about''] \<and>
   resolveMetadata no_engine
     \<lparr>defaults = Some (titled ''Site''), routes = [(''/about'', Static (titled ''About''))]\<rparr>
     ''/missing'' (Some [(''name'', ''alice'')]) () = (Inr (titled ''Site''), ()) \<and>
   resolveMetadata no_engine
     \<lparr>defaults = None, routes = [(''/about'', Static (titled ''About''))]\<rparr>
     ''/missing'' None () = (Inr empty_meta, ())"
proof -
  have h: "\<forall>k\<in>fst ` set (routes \<lparr>defaults = d,
        routes = [(''/about'', Static (titled ''About'') :: unit route_entry)]\<rparr>).
      RegExp_test no_engine (compile_route k) ''/missing'' = Inr False" for d
    by (simp add: eval_defs)
  show ?thesis
    using C3_unmatched_returns_defaults[OF h, of "Some (titled ''Site'')"
        "Some [(''name'', ''alice'')]" "()" None]
      C3_unmatched_returns_defaults[OF h, of None None "()" None] h[of None]
    by simp
qed

text \<open>
  Claim C3 as stated fails where \<open>new RegExp\<close> rejects a key: the path \<open>/missing\<close> matches
  neither \<open>/about\<close> nor \<open>/c++\<close>, whose expression \<open>^/c++$\<close> repeats a quantifier, and the
  resolver rejects with the \<open>SyntaxError\<close> where the claim has the defaults.
\<close>

theorem C3_malformed_key_counterexample:
  "RegExp_test no_engine (compile_route ''/about'') ''/missing'' = Inr False \<and>
   RegExp_test no_engine (compile_route ''/c++'') ''/missing'' = Inl (SyntaxError ''^/c++$'') \<and>
   resolveMetadata no_engine
     \<lparr>defaults = Some (titled ''Site''),
      routes = [(''/about'', Static (titled ''About'')), (''/c++'', Static (titled ''C++''))]\<rparr>
     ''/missing'' None () = (Inl (SyntaxError ''^/c++$''), ())"
  by (simp add: eval_defs)

subsection \<open>C4: the resolver function and its argument\<close>

text \<open>
  Claim C4 at a configuration whose only route has the empty key and a function as its
  value, and the empty path. The route matches, and the function is not invoked: whatever
  the function is, also one that throws or changes the world, the result is the defaults
  and the world is untouched. The cause is the test \<open>!routeKey\<close> of claim C2.
\<close>

theorem C4_empty_key_resolver_not_invoked:
  "RegExp_test ext (compile_route '''') '''' = Inr True \<and>
   matchRoute ext '''' \<lparr>defaults = d, routes = [('''', Dynamic f)]\<rparr> = Inr (Some '''') \<and>
   resolveMetadata ext \<lparr>defaults = d, routes = [('''', Dynamic f)]\<rparr> '''' pa w =
     (Inr (case d of None \<Rightarrow> empty_meta | Some m \<Rightarrow> m), w)"
  by (simp add: eval_defs)

subsection \<open>C5: errors\<close>

text \<open>
  Claim C5, as amended. When the test of every route key against the path returns false,
  the resolver returns a record and no error. When \<open>new RegExp\<close> rejects a key that the
  scan reaches, the resolver rejects with that \<open>SyntaxError\<close>. When the function that the
  resolver invokes (the value of the key that the scan returns, a key that is not empty)
  throws, or its promise rejects, the resolver rejects with the same value and leaves
  the world as that one call left it: nothing is caught, retried or replaced.
\<close>

theorem C5_errors_propagate:
  "((\<forall>k\<in>fst ` set (routes cfg). RegExp_test ext (compile_route k) path = Inr False) \<longrightarrow>
      (\<exists>m. resolveMetadata ext cfg path pa w = (Inr m, w))) \<and>
   (matchRoute ext path cfg = Inl err \<longrightarrow>
      resolveMetadata ext cfg path pa w = (Inl err, w)) \<and>
   (matchRoute ext path cfg = Inr (Some k) \<and> k \<noteq> [] \<and>
    map_of (routes cfg) k = Some (Dynamic f) \<and>
    f \<lparr>params = (case pa of None \<Rightarrow> [] | Some p \<Rightarrow> p), query = None\<rparr> w = (Inl e, w') \<longrightarrow>
      resolveMetadata ext cfg path pa w = (Inl e, w'))"
proof -
  have "matchRoute ext path cfg = Inr None"
    if "\<forall>k\<in>fst ` set (routes cfg). RegExp_test ext (compile_route k) path = Inr False"
    using that by (simp add: matchRoute_def matchRoute_loop_None set_Object_keys)
  then show ?thesis
    by (auto simp: resolveMetadata_unmatched resolveMetadata_matched
        resolveMetadata_engine_error)
qed

text \<open>The theorem of C5 at a route whose function fails and counts its calls in the
  world: the matching path gives the failure after one call, another path the defaults;
  and at a route \<open>/tag)\<close>, whose expression closes a group that was not opened.\<close>

theorem C5_errors_propagate_witness:
  "matchRoute no_engine ''/user/alice''
     \<lparr>defaults = Some (titled ''Site''),
      routes = [(''/user/:name'', Dynamic (\<lambda>c n. (Inl (Thrown ''down''), Suc n)))]\<rparr>
     = Inr (Some ''/user/:name'') \<and>
   resolveMetadata no_engine
     \<lparr>defaults = Some (titled ''Site''),
      routes = [(''/user/:name'', Dynamic (\<lambda>c n. (Inl (Thrown ''down''), Suc n)))]\<rparr>
     ''/user/alice'' None (0::nat) = (Inl (Thrown ''down''), 1) \<and>
   resolveMetadata no_engine
     \<lparr>defaults = Some (titled ''Site''),
      routes = [(''/user/:name'', Dynamic (\<lambda>c n. (Inl (Thrown ''down''), Suc n)))]\<rparr>
     ''/missing'' None (0::nat) = (Inr (titled ''Site''), 0) \<and>
   matchRoute no_engine ''/tag''
     \<lparr>defaults = None, routes = [(''/tag)'', Static (titled ''Tag'') :: nat route_entry)]\<rparr>
     = Inl (SyntaxError ''^/tag)$'') \<and>
   resolveMetadata no_engine
     \<lparr>defaults = None, routes = [(''/tag)'', Static (titled ''Tag''))]\<rparr>
     ''/tag'' None (0::nat) = (Inl (SyntaxError ''^/tag)$''), 0)"
  using C5_errors_propagate[where cfg = "\<lparr>defaults = Some (titled ''Site''),
        routes = [(''/user/:name'', Dynamic (\<lambda>c n. (Inl (Thrown ''down''), Suc n)))]\<rparr>"
      and ext = no_engine and path = "''/user/alice''" and pa = None and w = "0::nat"
      and k = "''/user/:name''" and f = "\<lambda>c n. (Inl (Thrown ''down''), Suc n)"
      and e = "Thrown ''down''" and w' = 1]
    C5_errors_propagate[where cfg = "\<lparr>defaults = Some (titled ''Site''),
        routes = [(''/user/:name'', Dynamic (\<lambda>c n. (Inl (Thrown ''down''), Suc n)))]\<rparr>"
      and ext = no_engine and path = "''/missing''" and pa = None and w = "0::nat"]
    C5_errors_propagate[where cfg = "\<lparr>defaults = None,
        routes = [(''/tag)'', Static (titled ''Tag'') :: nat route_entry)]\<rparr>"
      and ext = no_engine and path = "''/tag''" and pa = None and w = "0::nat"
      and err = "SyntaxError ''^/tag)$''"]
  by (simp add: eval_defs)

text \<open>
  Claim C5 as stated fails where \<open>new RegExp\<close> rejects a key: the path \<open>/missing\<close> does not
  match the only route \<open>(\<close>, whose expression \<open>^($\<close> opens a group and does not close it,
  and the resolver raises the \<open>SyntaxError\<close>.
\<close>

theorem C5_malformed_key_counterexample:
  "RegExp_test no_engine (compile_route ''('') ''/missing'' = Inl (SyntaxError ''^($'') \<and>
   resolveMetadata no_engine
     \<lparr>defaults = Some (titled ''Site''), routes = [(''('', Static (titled ''Group''))]\<rparr>
     ''/missing'' None () = (Inl (SyntaxError ''^($''), ())"
  by (simp add: eval_defs)

subsection \<open>C6: \<open>/blog/:slug\<close> and \<open>/blog/hello-world\<close>\<close>

text \<open>
  Claim C6. In every configuration in which no key before \<open>/blog/:slug\<close> matches the path
  \<open>/blog/hello-world\<close>, the scan returns \<open>/blog/:slug\<close> and the resolver uses the static
  record of that route or invokes its function. The pattern is the literal \<open>/blog/\<close>
  and one wildcard, and a path \<open>/blog/\<close> followed by a segment matches exactly when the
  segment is not empty and has no slash, as \<open>hello-world\<close> is.
\<close>

theorem C6_blog_slug_selected:
  assumes "Object_keys (routes cfg) = bs @ ''/blog/:slug'' # cs"
    and "\<forall>r\<in>set bs. RegExp_test ext (compile_route r) ''/blog/hello-world'' = Inr False"
    and "map_of (routes cfg) ''/blog/:slug'' = Some entry"
  shows "matchRoute ext ''/blog/hello-world'' cfg = Inr (Some ''/blog/:slug'') \<and>
         resolveMetadata ext cfg ''/blog/hello-world'' pa w =
           (case entry of
              Static m \<Rightarrow> (Inr (spread (defaults cfg) (Some m)), w)
            | Dynamic f \<Rightarrow>
                (case f \<lparr>params = (case pa of None \<Rightarrow> [] | Some p \<Rightarrow> p), query = None\<rparr> w of
                   (Inl e, w') \<Rightarrow> (Inl e, w')
                 | (Inr r, w') \<Rightarrow> (Inr (spread (defaults cfg) (Some r)), w'))) \<and>
         tokens ''/blog/:slug'' = map Lit ''/blog/'' @ [Wild] \<and>
         RegExp_test ext (compile_route ''/blog/:slug'') (''/blog/'' @ seg) =
           Inr (seg \<noteq> [] \<and> CHR ''/'' \<notin> set seg)"
proof -
  have pl: "plain (tokens ''/blog/:slug'')"
    by (simp add: plain_def syntax_char_def)
  have t: "RegExp_test ext (compile_route ''/blog/:slug'') p =
           Inr (\<exists>seg. p = ''/blog/'' @ seg \<and> seg \<noteq> [] \<and> CHR ''/'' \<notin> set seg)" for p
    using RegExp_test_plain[OF pl] tmatch_blog_slug by simp
  have "RegExp_test ext (compile_route ''/blog/:slug'') (''/blog/'' @ ''hello-world'') = Inr True"
    unfolding t by simp
  then have hit: "RegExp_test ext (compile_route ''/blog/:slug'') ''/blog/hello-world'' = Inr True"
    by simp
  have m: "matchRoute ext ''/blog/hello-world'' cfg = Inr (Some ''/blog/:slug'')"
    unfolding matchRoute_def matchRoute_loop_Some using assms(1,2) hit by blast
  have "resolveMetadata ext cfg ''/blog/hello-world'' pa w =
           (case entry of
              Static m \<Rightarrow> (Inr (spread (defaults cfg) (Some m)), w)
            | Dynamic f \<Rightarrow>
                (case f \<lparr>params = (case pa of None \<Rightarrow> [] | Some p \<Rightarrow> p), query = None\<rparr> w of
                   (Inl e, w') \<Rightarrow> (Inl e, w')
                 | (Inr r, w') \<Rightarrow> (Inr (spread (defaults cfg) (Some r)), w')))"
    using assms(3) by (simp add: resolveMetadata_matched[OF m] split: route_entry.splits)
  moreover have "RegExp_test ext (compile_route ''/blog/:slug'') (''/blog/'' @ seg) =
           Inr (seg \<noteq> [] \<and> CHR ''/'' \<notin> set seg)"
    unfolding t by simp
  ultimately show ?thesis using m by simp
qed

text \<open>The theorem of C6 at a configuration with a static route before the blog route,
  whose function returns the \<open>slug\<close> parameter as the title.\<close>

theorem C6_blog_slug_witness:
  "Object_keys [(''/about'', Static (titled ''About'')),
                (''/blog/:slug'', Dynamic (\<lambda>c (n::nat). (Inr (titled (concat (map snd (params c)))), n)))]
     = [''/about''] @ ''/blog/:slug'' # [] \<and>
   list_all (\<lambda>r. RegExp_test no_engine (compile_route r) ''/blog/hello-world'' = Inr False) [''/about''] \<and>
   resolveMetadata no_engine
     \<lparr>defaults = None,
      routes = [(''/about'', Static (titled ''About'')),
                (''/blog/:slug'', Dynamic (\<lambda>c (n::nat). (Inr (titled (concat (map snd (params c)))), n)))]\<rparr>
     ''/blog/hello-world'' (Some [(''slug'', ''hello-world'')]) 0 = (Inr (titled ''hello-world''), 0)"
proof -
  let ?f = "\<lambda>c (n::nat). (Inr (titled (concat (map snd (params c)))) :: exn + route_meta, n)"
  let ?cfg = "\<lparr>defaults = None, routes = [(''/about'', Static (titled ''About'')), (''/blog/:slug'', Dynamic ?f)]\<rparr>"
  have a: "Object_keys (routes ?cfg) = [''/about''] @ ''/blog/:slug'' # []"
    by (simp add: eval_defs)
  have b: "\<forall>r\<in>set [''/about'']. RegExp_test no_engine (compile_route r) ''/blog/hello-world'' = Inr False"
    by (simp add: eval_defs)
  have c: "map_of (routes ?cfg) ''/blog/:slug'' = Some (Dynamic ?f)"
    by simp
  show ?thesis
    using C6_blog_slug_selected[OF a b c, of "Some [(''slug'', ''hello-world'')]" 0 "[]"] a b
    by (simp add: eval_defs)
qed

subsection \<open>C7: determinism\<close>

text \<open>
  Claim C7. When every function among the routes is pure, the result of the resolver for
  a configuration, a path and a \<open>params\<close> argument is the same in every world, a call
  leaves the world as it was, and so a second call with the same arguments gives the
  result of the first.
\<close>

theorem C7_deterministic_with_pure_resolvers:
  assumes "\<forall>(k, v)\<in>set (routes cfg). case v of Dynamic f \<Rightarrow> pure_resolver f | Static m \<Rightarrow> True"
  shows "fst (resolveMetadata ext cfg path pa w1) = fst (resolveMetadata ext cfg path pa w2) \<and>
         snd (resolveMetadata ext cfg path pa w1) = w1 \<and>
         fst (resolveMetadata ext cfg path pa (snd (resolveMetadata ext cfg path pa w1))) =
           fst (resolveMetadata ext cfg path pa w1)"
proof -
  have one: "fst (resolveMetadata ext cfg path pa u1) = fst (resolveMetadata ext cfg path pa u2) \<and>
         snd (resolveMetadata ext cfg path pa u1) = u1" for u1 u2
  proof (cases "matchRoute ext path cfg")
    case (Inl e)
    then show ?thesis by (simp add: resolveMetadata_engine_error)
  next
    case (Inr rk)
    show ?thesis
    proof (cases "rk = None \<or> rk = Some []")
      case True
      with Inr show ?thesis
        by (auto simp: resolveMetadata_unmatched resolveMetadata_empty_key)
    next
      case False
      then obtain k where k: "rk = Some k" "k \<noteq> []" by auto
      note r = resolveMetadata_matched[OF Inr[unfolded k(1)] k(2)]
      show ?thesis
      proof (cases "map_of (routes cfg) k")
        case None
        then show ?thesis by (simp add: r)
      next
        case (Some v)
        show ?thesis
        proof (cases v)
          case (Static m)
          with Some show ?thesis by (simp add: r)
        next
          case (Dynamic f)
          with Some have "(k, Dynamic f) \<in> set (routes cfg)"
            by (auto dest: map_of_SomeD)
          with assms have p: "pure_resolver f" by fastforce
          let ?c = "\<lparr>params = (case pa of None \<Rightarrow> [] | Some p \<Rightarrow> p), query = None\<rparr>"
          from p have a: "snd (f ?c u1) = u1" and b: "fst (f ?c u1) = fst (f ?c u2)"
            unfolding pure_resolver_def by blast+
          obtain x1 v1 x2 v2 where e: "f ?c u1 = (x1, v1)" "f ?c u2 = (x2, v2)"
            by (metis surj_pair)
          with a b have "v1 = u1" "x1 = x2" by simp_all
          with Some Dynamic e show ?thesis by (simp add: r split: sum.splits)
        qed
      qed
    qed
  qed
  from one[of w1 w2] one[of w1 w1] show ?thesis by simp
qed

text \<open>The theorem of C7 at a route whose function returns the \<open>name\<close> parameter as the
  title and neither reads nor changes the world (a counter).\<close>

theorem C7_deterministic_witness:
  "pure_resolver (\<lambda>c (n::nat). (Inr (titled (concat (map snd (params c)))) :: exn + route_meta, n)) \<and>
   fst (resolveMetadata no_engine
     \<lparr>defaults = None,
      routes = [(''/user/:name'', Dynamic (\<lambda>c (n::nat). (Inr (titled (concat (map snd (params c)))), n)))]\<rparr>
     ''/user/alice'' (Some [(''name'', ''alice'')]) 0) =
   fst (resolveMetadata no_engine
     \<lparr>defaults = None,
      routes = [(''/user/:name'', Dynamic (\<lambda>c (n::nat). (Inr (titled (concat (map snd (params c)))), n)))]\<rparr>
     ''/user/alice'' (Some [(''name'', ''alice'')]) 7) \<and>
   fst (resolveMetadata no_engine
     \<lparr>defaults = None,
      routes = [(''/user/:name'', Dynamic (\<lambda>c (n::nat). (Inr (titled (concat (map snd (params c)))), n)))]\<rparr>
     ''/user/alice'' (Some [(''name'', ''alice'')]) 0) = Inr (titled ''alice'')"
proof -
  let ?f = "\<lambda>c (n::nat). (Inr (titled (concat (map snd (params c)))) :: exn + route_meta, n)"
  let ?cfg = "\<lparr>defaults = None, routes = [(''/user/:name'', Dynamic ?f)]\<rparr>"
  have p: "pure_resolver ?f" by (simp add: pure_resolver_def)
  then have h: "\<forall>(k, v)\<in>set (routes ?cfg). case v of Dynamic f \<Rightarrow> pure_resolver f | Static m \<Rightarrow> True"
    by simp
  have "fst (resolveMetadata no_engine ?cfg ''/user/alice'' (Some [(''name'', ''alice'')]) 0) =
        Inr (titled ''alice'')"
    by (simp add: eval_defs)
  with p C7_deterministic_with_pure_resolvers[OF h, of no_engine "''/user/alice''"
      "Some [(''name'', ''alice'')]" 0 7]
  show ?thesis by simp
qed

subsection \<open>C8: the three patches of the hydrator\<close>

text \<open>
  Claim C8, as amended. A request or a body that fails leaves the document as it is. On a
  response the hydrator applies the three patches of \<open>three_patches\<close> and nothing else:
  it sets the document title when \<open>title\<close> is a string that is not empty; it sets the
  content of the first \<open>meta\<close> element named \<open>description\<close>, creating the element at the
  end of \<open>head\<close> when there is none, when \<open>description\<close> is a string that is not empty;
  and likewise for the element with the property \<open>og:image\<close> when \<open>openGraph.image\<close> is a
  string that is not empty. Every element of the document other than the two that the
  selectors find stays as it is. Two responses that agree on these three values patch
  the document alike; in particular \<open>twitter\<close> and \<open>jsonLd\<close> are never applied.
\<close>

theorem C8_three_patches:
  "updateMeta fetch pathname doc =
     (case fetch (''/api/metadata?path='' @ pathname) of
        Inl e \<Rightarrow> (Some e, doc)
      | Inr m \<Rightarrow> (None, three_patches m doc)) \<and>
   doc_title (apply_meta m doc) =
     (if truthy (title m) then the (title m) else doc_title doc) \<and>
   (in_document doc r \<and>
    querySelector doc (attr_selector ''meta'' ''name'' ''description'') \<noteq> Some r \<and>
    querySelector doc (attr_selector ''meta'' ''property'' ''og:image'') \<noteq> Some r \<longrightarrow>
      element_at (apply_meta m doc) r = element_at doc r) \<and>
   (title m = title m' \<and> description m = description m' \<and>
    openGraph_image m = openGraph_image m' \<longrightarrow> apply_meta m doc = apply_meta m' doc) \<and>
   apply_meta (m\<lparr>twitter := tw, jsonLd := jl\<rparr>) doc = apply_meta m doc"
proof -
  have "updateMeta fetch pathname doc =
     (case fetch (''/api/metadata?path='' @ pathname) of
        Inl e \<Rightarrow> (Some e, doc)
      | Inr m \<Rightarrow> (None, three_patches m doc))"
    by (simp add: updateMeta_def apply_meta_three_patches split: sum.splits)
  moreover have "doc_title (apply_meta m doc) =
     (if truthy (title m) then the (title m) else doc_title doc)"
    unfolding apply_meta_three_patches by (rule three_patches_title)
  moreover have "title m = title m' \<and> description m = description m' \<and>
    openGraph_image m = openGraph_image m' \<longrightarrow> apply_meta m doc = apply_meta m' doc"
    by (simp add: apply_meta_def)
  moreover have "apply_meta (m\<lparr>twitter := tw, jsonLd := jl\<rparr>) doc = apply_meta m doc"
    by (simp add: apply_meta_def openGraph_image_def)
  ultimately show ?thesis
    using apply_meta_other_elements[of doc r m] by blast
qed

text \<open>The theorem of C8 at a response with all five fields on a document whose head
  holds a link element and no meta element, and at two responses that differ in
  \<open>twitter\<close> only: the link element stays as it is.\<close>

theorem C8_three_patches_witness:
  "updateMeta
     (\<lambda>u. if u = ''/api/metadata?path=/about''
          then Inr \<lparr>title = Some ''About'', description = Some ''Who we are'',
                    openGraph = Some \<lparr>og_type = Some ''website'', og_image = Some ''/og.png'', og_url = None\<rparr>,
                    twitter = Some \<lparr>tw_card = Some ''summary'', tw_site = None, tw_creator = None, tw_image = None\<rparr>,
                    jsonLd = Some [(''name'', JStr ''x'')]\<rparr>
          else Inl (Thrown ''404''))
     ''/about'' \<lparr>doc_title = ''Home'', head = [\<lparr>tag = ''link'', attrs = [(''rel'', ''icon'')]\<rparr>], body = []\<rparr> =
   (None,
    \<lparr>doc_title = ''About'',
     head = [\<lparr>tag = ''link'', attrs = [(''rel'', ''icon'')]\<rparr>,
             \<lparr>tag = ''meta'', attrs = [(''name'', ''description''), (''content'', ''Who we are'')]\<rparr>,
             \<lparr>tag = ''meta'', attrs = [(''property'', ''og:image''), (''content'', ''/og.png'')]\<rparr>],
     body = []\<rparr>) \<and>
   in_document \<lparr>doc_title = ''Home'', head = [\<lparr>tag = ''link'', attrs = [(''rel'', ''icon'')]\<rparr>], body = []\<rparr>
     (InHead 0) \<and>
   element_at (apply_meta ((titled ''About'')\<lparr>description := Some ''Who we are''\<rparr>)
       \<lparr>doc_title = ''Home'', head = [\<lparr>tag = ''link'', attrs = [(''rel'', ''icon'')]\<rparr>], body = []\<rparr>)
     (InHead 0) = \<lparr>tag = ''link'', attrs = [(''rel'', ''icon'')]\<rparr> \<and>
   apply_meta ((titled ''About'')\<lparr>description := Some ''Who we are''\<rparr>)
     \<lparr>doc_title = ''Home'', head = [\<lparr>tag = ''link'', attrs = [(''rel'', ''icon'')]\<rparr>], body = []\<rparr> =
   apply_meta ((titled ''About'')\<lparr>description := Some ''Who we are'',
       twitter := Some \<lparr>tw_card = Some ''summary'', tw_site = None, tw_creator = None, tw_image = None\<rparr>\<rparr>)
     \<lparr>doc_title = ''Home'', head = [\<lparr>tag = ''link'', attrs = [(''rel'', ''icon'')]\<rparr>], body = []\<rparr>"
  using C8_three_patches[where fetch = "\<lambda>u. if u = ''/api/metadata?path=/about''
          then Inr \<lparr>title = Some ''About'', description = Some ''Who we are'',
                    openGraph = Some \<lparr>og_type = Some ''website'', og_image = Some ''/og.png'', og_url = None\<rparr>,
                    twitter = Some \<lparr>tw_card = Some ''summary'', tw_site = None, tw_creator = None, tw_image = None\<rparr>,
                    jsonLd = Some [(''name'', JStr ''x'')]\<rparr>
          else Inl (Thrown ''404'')" and pathname = "''/about''"
       and doc = "\<lparr>doc_title = ''Home'', head = [\<lparr>tag = ''link'', attrs = [(''rel'', ''icon'')]\<rparr>], body = []\<rparr>"
       and m = "(titled ''About'')\<lparr>description := Some ''Who we are''\<rparr>"
       and m' = "(titled ''About'')\<lparr>description := Some ''Who we are'',
         twitter := Some \<lparr>tw_card = Some ''summary'', tw_site = None, tw_creator = None, tw_image = None\<rparr>\<rparr>"
       and r = "InHead 0"]
  by (simp add: hydrator_defs three_patches_def create_or_update_def)

text \<open>
  Claim C8 as stated fails on a field that is present and empty: the response
  \<open>{title: ""}\<close> has a title, and the document title stays \<open>Home\<close>.
\<close>

theorem C8_empty_title_counterexample:
  "title (titled '''') = Some '''' \<and>
   doc_title (snd (updateMeta (\<lambda>u. Inr (titled '''')) ''/about''
     \<lparr>doc_title = ''Home'', head = [], body = []\<rparr>)) = ''Home''"
  by (simp add: hydrator_defs)

subsection \<open>C9: colon runs inside a segment\<close>

text \<open>
  Claim C9, as amended. Pattern compilation copies the text before the first colon. The
  run of characters other than a slash that begins with that colon and ends at the next
  slash or at the end of the pattern (it may hold further colons) is replaced by the
  wildcard group wherever it stands, also in the middle of a segment, when it has at
  least one character after the colon; a run that is the colon alone is copied. The rest
  of the pattern is compiled in the same way, and so is every segment, independently of
  the others. The pattern \<open>/file:id\<close> compiles to
  \<open>^/file([^/]+)$\<close>, and the paths it matches are exactly \<open>/file\<close> followed by one or more
  characters other than a slash (paths of a single segment).
\<close>

theorem C9_colon_run_replaced_anywhere:
  "(CHR '':'' \<notin> set pre \<longrightarrow> replace_colon pre = pre) \<and>
   (CHR '':'' \<notin> set pre \<and> run \<noteq> [] \<and> CHR ''/'' \<notin> set run \<and>
    (rest = [] \<or> hd rest = CHR ''/'') \<longrightarrow>
      replace_colon (pre @ CHR '':'' # run @ rest) = pre @ ''([^/]+)'' @ replace_colon rest) \<and>
   (CHR '':'' \<notin> set pre \<and> (rest = [] \<or> hd rest = CHR ''/'') \<longrightarrow>
      replace_colon (pre @ CHR '':'' # rest) = pre @ CHR '':'' # replace_colon rest) \<and>
   (CHR ''/'' \<notin> set seg \<longrightarrow>
      replace_colon (seg @ CHR ''/'' # rest) =
        replace_colon seg @ CHR ''/'' # replace_colon rest) \<and>
   compile_route ''/file:id'' = ''^/file([^/]+)$'' \<and>
   RegExp_test ext (compile_route ''/file:id'') path =
     Inr (\<exists>w. path = ''/file'' @ w \<and> w \<noteq> [] \<and> CHR ''/'' \<notin> set w)"
proof -
  have t: "tokens ''/file:id'' = map Lit ''/file'' @ [Wild]"
    by simp
  have "plain (tokens ''/file:id'')"
    by (simp add: plain_def syntax_char_def)
  then have "RegExp_test ext (compile_route ''/file:id'') path = Inr (tmatch (tokens ''/file:id'') path)"
    by (rule RegExp_test_plain)
  also have "tmatch (tokens ''/file:id'') path =
      (\<exists>w. path = ''/file'' @ w \<and> w \<noteq> [] \<and> CHR ''/'' \<notin> set w)"
    unfolding t tmatch_lits tmatch_wild_last ..
  finally have m: "RegExp_test ext (compile_route ''/file:id'') path =
     Inr (\<exists>w. path = ''/file'' @ w \<and> w \<noteq> [] \<and> CHR ''/'' \<notin> set w)" .
  have c: "compile_route ''/file:id'' = ''^/file([^/]+)$''"
    by (simp add: compile_route_def)
  have a1: "replace_colon pre = pre" if "CHR '':'' \<notin> set pre"
    using replace_colon_no_colon[OF that, of "[]"] by simp
  have a2: "replace_colon (pre @ CHR '':'' # run @ rest) = pre @ ''([^/]+)'' @ replace_colon rest"
    if "CHR '':'' \<notin> set pre" "run \<noteq> []" "CHR ''/'' \<notin> set run" "rest = [] \<or> hd rest = CHR ''/''"
    using replace_colon_no_colon[OF that(1), of "CHR '':'' # run @ rest"]
      replace_colon_run[OF that(2,3,4)]
    by simp
  have a3: "replace_colon (pre @ CHR '':'' # rest) = pre @ CHR '':'' # replace_colon rest"
    if "CHR '':'' \<notin> set pre" "rest = [] \<or> hd rest = CHR ''/''"
    using replace_colon_no_colon[OF that(1), of "CHR '':'' # rest"] replace_colon_lone[OF that(2)]
    by simp
  show ?thesis
    using a1 a2 a3 m c replace_colon_segment[of seg rest] by blast
qed

text \<open>The theorem of C9 at the patterns \<open>/a:b:c/d\<close>, \<open>/::\<close> and \<open>/a/:/x\<close> and at the path
  \<open>/file1\<close>.\<close>

theorem C9_colon_run_witness:
  "replace_colon ''/a:b:c/d'' = ''/a([^/]+)/d'' \<and>
   replace_colon ''/::'' = ''/([^/]+)'' \<and>
   replace_colon ''/a/:/x'' = ''/a/:/x'' \<and>
   RegExp_test no_engine (compile_route ''/file:id'') ''/file1'' = Inr True"
  using C9_colon_run_replaced_anywhere[where pre = "''/a''" and run = "''b:c''"
      and rest = "''/d''" and ext = no_engine and path = "''/file1''"]
    C9_colon_run_replaced_anywhere[where pre = "''/''" and run = "'':''" and rest = "[]"]
    C9_colon_run_replaced_anywhere[where pre = "''/a/''" and rest = "''/x''"]
  by simp

text \<open>
  Claim C9 as stated fails twice: the colon that ends \<open>/a/:\<close> is a run of characters other
  than a slash that begins with a colon, and it is not replaced; and the last segment of
  \<open>/x/file1\<close> starts with \<open>file\<close> followed by one more character, yet \<open>/file:id\<close> does
  not match that path.
\<close>

theorem C9_last_segment_counterexample:
  "replace_colon ''/a/:'' = ''/a/:'' \<and>
   RegExp_test no_engine (compile_route ''/file:id'') ''/x/file1'' = Inr False"
  by (simp add: RegExp_test_def compile_route_def parse_pattern_def parse_class_def
      mk_alt_def mk_seq_def rx_search_def)

subsection \<open>C10: fields that a response omits\<close>




end
